theory Spec2Isabelle
  imports Complex_Main
begin

section \<open>Quick Brush Size: the key handler and the settings store\<close>

text \<open>
  A shallow embedding of \<^verbatim>\<open>quick_brush_size.py\<close> (class \<^verbatim>\<open>AcceleratingKeyHandler\<close>),
  \<^verbatim>\<open>settings_manager.py\<close> (class \<^verbatim>\<open>SettingsManager\<close>) and the checkbox slot of
  \<^verbatim>\<open>docker.py\<close> (\<^verbatim>\<open>ThresholdSettingRow._on_checkbox_changed\<close>).

  Conventions of the embedding.
  \<^item> Python floats (timestamps in seconds, intervals, brush sizes) are idealised as
    \<^typ>\<open>real\<close>: rounding, infinities and NaN are outside the model.
  \<^item> Every value the code reads from its environment is a parameter of the function that
    reads it: a call of \<^verbatim>\<open>time.time()\<close> is a \<^typ>\<open>real\<close> argument, a call of
    \<^verbatim>\<open>_get_current_brush_size()\<close> is a \<^typ>\<open>real option\<close> argument (\<open>None\<close> is
    Python's \<^verbatim>\<open>None\<close>).
  \<^item> A \<^verbatim>\<open>QTimer\<close> is the field \<open>Some ms\<close> while it is active with period \<open>ms\<close>
    milliseconds and \<open>None\<close> while it is stopped.
  \<^item> Handler objects live in a store indexed by addresses, because \<^verbatim>\<open>start_press\<close>
    mutates the paired handler through a reference.
  \<^item> A leading underscore of a Python name is dropped (\<^verbatim>\<open>_on_timer\<close> is \<open>on_timer\<close>).
\<close>

subsection \<open>The handler object\<close>

datatype InputMode = HOLD | SLOW_TAP

datatype error = ZeroDivisionError

type_synonym addr = nat

record handler =
  action_name :: string
  HOLD_DETECT_TIME :: real
  SLOW_TAP_THRESHOLD :: real
  MULTIPLIER_THRESHOLD :: real
  HOLD_ENABLED :: bool
  SLOW_TAP_ENABLED :: bool
  MULTIPLIER_ENABLED :: bool
  HOLD_BASE_INTERVAL :: real
  HOLD_MIN_INTERVAL :: real
  HOLD_EXP_K :: real
  HOLD_TAU :: real
  SLOW_BURST_COUNT :: int
  SLOW_BURST_INTERVAL :: real
  MULTIPLIER_BURST_COUNT :: int
  MULTIPLIER_BURST_INTERVAL :: real
  is_pressed :: bool
  press_start_time :: real
  last_trigger_time :: real
  last_release_time :: real
  trigger_count :: int
  current_mode :: InputMode
  burst_remaining :: int
  burst_active :: bool
  burst_timer :: "int option"
  current_burst_interval :: real
  timer :: "int option"
  timer_interval :: int
  last_brush_size :: "real option"
  unchanged_trigger_count :: int
  last_timer_activity :: real
  paired_handler :: "addr option"

text \<open>The class constants (safety limits, not configurable).\<close>

definition MAX_PRESS_DURATION :: real where
  "MAX_PRESS_DURATION = 10.0"

definition STALE_STATE_TIMEOUT :: real where
  "STALE_STATE_TIMEOUT = 0.5"

definition MAX_UNCHANGED_TRIGGERS :: int where
  "MAX_UNCHANGED_TRIGGERS = 15"

text \<open>\<^verbatim>\<open>AcceleratingKeyHandler.__init__\<close>.\<close>

definition new_handler :: "string \<Rightarrow> handler" where
  "new_handler name =
     \<lparr> action_name = name,
       HOLD_DETECT_TIME = 0.035,
       SLOW_TAP_THRESHOLD = 0.30,
       MULTIPLIER_THRESHOLD = 0.15,
       HOLD_ENABLED = True,
       SLOW_TAP_ENABLED = True,
       MULTIPLIER_ENABLED = True,
       HOLD_BASE_INTERVAL = 0.10,
       HOLD_MIN_INTERVAL = 0.008,
       HOLD_EXP_K = 8.0,
       HOLD_TAU = 0.15,
       SLOW_BURST_COUNT = 3,
       SLOW_BURST_INTERVAL = 0.015,
       MULTIPLIER_BURST_COUNT = 2,
       MULTIPLIER_BURST_INTERVAL = 0.010,
       is_pressed = False,
       press_start_time = 0,
       last_trigger_time = 0,
       last_release_time = 0,
       trigger_count = 0,
       current_mode = SLOW_TAP,
       burst_remaining = 0,
       burst_active = False,
       burst_timer = None,
       current_burst_interval = 0.015,
       timer = None,
       timer_interval = 5,
       last_brush_size = None,
       unchanged_trigger_count = 0,
       last_timer_activity = 0,
       paired_handler = None \<rparr>"

text \<open>Python's \<^verbatim>\<open>int(x)\<close> on a float truncates towards zero.\<close>

definition py_int :: "real \<Rightarrow> int" where
  "py_int x = (if 0 \<le> x then \<lfloor>x\<rfloor> else \<lceil>x\<rceil>)"

subsection \<open>Trigger, cleanup, release\<close>

text \<open>
  \<^verbatim>\<open>_trigger_action\<close>: counts the trigger and asks the host to run the action; the
  host's action is outside the handler, so the counter is what the handler records of it.
\<close>

definition trigger_action :: "handler \<Rightarrow> handler" where
  "trigger_action h = h\<lparr>trigger_count := trigger_count h + 1\<rparr>"

definition cleanup_state :: "handler \<Rightarrow> handler" where
  "cleanup_state h =
     h\<lparr>timer := None, burst_timer := None, burst_remaining := 0,
       burst_active := False, unchanged_trigger_count := 0\<rparr>"

text \<open>\<^verbatim>\<open>end_press\<close>; \<open>now\<close> is the value of \<^verbatim>\<open>time.time()\<close>.\<close>

definition end_press :: "handler \<Rightarrow> real \<Rightarrow> handler" where
  "end_press h now =
     (if \<not> is_pressed h then h
      else (cleanup_state h)\<lparr>last_release_time := now, is_pressed := False\<rparr>)"

text \<open>\<^verbatim>\<open>force_stop\<close>; the reason string is not used by the code.\<close>

definition force_stop :: "handler \<Rightarrow> string \<Rightarrow> handler" where
  "force_stop h reason = (cleanup_state h)\<lparr>is_pressed := False\<rparr>"

subsection \<open>Bursts\<close>

text \<open>\<^verbatim>\<open>_finish_burst\<close>; \<open>now\<close> is the value of \<^verbatim>\<open>time.time()\<close> if it is read.\<close>

definition finish_burst :: "handler \<Rightarrow> real \<Rightarrow> handler" where
  "finish_burst h now =
     (let h1 = h\<lparr>burst_active := False, burst_remaining := 0\<rparr>
      in if is_pressed h1 \<and> HOLD_ENABLED h1
         then h1\<lparr>press_start_time := now, last_trigger_time := now,
                 timer := Some (timer_interval h1)\<rparr>
         else h1)"

text \<open>
  \<^verbatim>\<open>_start_burst\<close>; \<open>now\<close> is handed on to \<^verbatim>\<open>_finish_burst\<close>.
\<close>

definition start_burst :: "handler \<Rightarrow> int \<Rightarrow> real \<Rightarrow> real \<Rightarrow> handler" where
  "start_burst h burst_count burst_interval now =
     (let h1 = trigger_action
                 (h\<lparr>burst_remaining := burst_count, burst_active := True,
                    current_burst_interval := burst_interval\<rparr>);
          h2 = h1\<lparr>burst_remaining := burst_remaining h1 - 1\<rparr>
      in if burst_remaining h2 > 0
         then h2\<lparr>burst_timer := Some (py_int (current_burst_interval h2 * 1000))\<rparr>
         else finish_burst h2 now)"

definition on_burst_timer :: "handler \<Rightarrow> real \<Rightarrow> handler" where
  "on_burst_timer h now =
     (if burst_remaining h > 0 \<and> is_pressed h
      then (let h1 = trigger_action h;
                h2 = h1\<lparr>burst_remaining := burst_remaining h1 - 1\<rparr>
            in if burst_remaining h2 > 0
               then h2\<lparr>burst_timer := Some (py_int (current_burst_interval h2 * 1000))\<rparr>
               else finish_burst h2 now)
      else finish_burst h now)"

definition handle_slow_tap :: "handler \<Rightarrow> bool \<Rightarrow> real \<Rightarrow> handler" where
  "handle_slow_tap h use_multiplier now =
     (let h1 = h\<lparr>current_mode := SLOW_TAP\<rparr>;
          burst_count = (if use_multiplier
                         then SLOW_BURST_COUNT h1 * MULTIPLIER_BURST_COUNT h1
                         else SLOW_BURST_COUNT h1);
          burst_interval = (if use_multiplier
                            then MULTIPLIER_BURST_INTERVAL h1
                            else SLOW_BURST_INTERVAL h1)
      in start_burst h1 burst_count burst_interval now)"

subsection \<open>Pressing a key\<close>

text \<open>
  The part of \<^verbatim>\<open>start_press\<close> that works on the handler itself (from
  \<^verbatim>\<open>self.is_pressed = True\<close> to the end). \<open>now\<close> is the first reading of the clock,
  \<open>now'\<close> the reading inside \<^verbatim>\<open>_finish_burst\<close> (if the burst ends at once),
  \<open>brush_size\<close> the brush size the host reports.
\<close>

definition start_press_self :: "handler \<Rightarrow> real \<Rightarrow> real \<Rightarrow> real option \<Rightarrow> handler" where
  "start_press_self h now now' brush_size =
     (let h1 = h\<lparr>is_pressed := True, press_start_time := now, last_trigger_time := now,
                 trigger_count := 0, last_brush_size := brush_size,
                 unchanged_trigger_count := 0, last_timer_activity := now\<rparr>;
          time_since_release = press_start_time h1 - last_release_time h1;
          h2 = (if SLOW_TAP_ENABLED h1 \<and>
                   (last_release_time h1 = 0 \<or> time_since_release < SLOW_TAP_THRESHOLD h1)
                then handle_slow_tap h1
                       (MULTIPLIER_ENABLED h1 \<and> last_release_time h1 > 0 \<and>
                        time_since_release < MULTIPLIER_THRESHOLD h1) now'
                else handle_slow_tap h1 False now')
      in if HOLD_ENABLED h2 \<and> \<not> burst_active h2
         then h2\<lparr>timer := Some (timer_interval h2)\<rparr>
         else h2)"

text \<open>
  \<^verbatim>\<open>start_press\<close> on the handler at address \<open>a\<close> of the store: nothing if it is
  pressed already; otherwise the paired handler, if there is one and it is pressed, is
  force-stopped first.
\<close>

type_synonym heap = "addr \<Rightarrow> handler"

definition start_press :: "heap \<Rightarrow> addr \<Rightarrow> real \<Rightarrow> real \<Rightarrow> real option \<Rightarrow> heap" where
  "start_press hp a now now' brush_size =
     (if is_pressed (hp a) then hp
      else (let hp1 = (case paired_handler (hp a) of
                         None \<Rightarrow> hp
                       | Some p \<Rightarrow>
                           if is_pressed (hp p)
                           then hp(p := force_stop (hp p) ''paired handler starting'')
                           else hp)
            in hp1(a := start_press_self (hp1 a) now now' brush_size)))"

subsection \<open>The poll timer\<close>

text \<open>
  \<^verbatim>\<open>_get_current_interval\<close>. Python raises \<^verbatim>\<open>ZeroDivisionError\<close> on a float division
  by zero. (The overflow of \<^verbatim>\<open>math.exp\<close> on a large argument is a matter of floats and is
  outside the model.)
\<close>

definition get_current_interval :: "handler \<Rightarrow> real \<Rightarrow> error + real" where
  "get_current_interval h elapsed_time =
     (if current_mode h = HOLD
      then (let t = max 0 (elapsed_time - HOLD_DETECT_TIME h)
            in if HOLD_TAU h = 0 then Inl ZeroDivisionError
               else (let decay = exp (- HOLD_EXP_K h * t / HOLD_TAU h);
                         interval = HOLD_BASE_INTERVAL h * decay
                     in Inr (max (HOLD_MIN_INTERVAL h) interval)))
      else (let t = elapsed_time;
                accel = 1.0 + 1.5 * t
            in if accel = 0 then Inl ZeroDivisionError
               else Inr (max 0.03 (0.15 / accel))))"

text \<open>
  \<^verbatim>\<open>_trigger_action_with_safety_check\<close>; \<open>size_before\<close> and \<open>size_after\<close> are the
  two readings of the brush size, before and after the action.
\<close>

definition trigger_action_with_safety_check ::
  "handler \<Rightarrow> real option \<Rightarrow> real option \<Rightarrow> handler" where
  "trigger_action_with_safety_check h size_before size_after =
     (let h1 = trigger_action h
      in case size_before of
           None \<Rightarrow> h1
         | Some b \<Rightarrow>
             (case size_after of
                None \<Rightarrow> h1
              | Some a \<Rightarrow>
                  if \<bar>b - a\<bar> < 0.001
                  then (let h2 = h1\<lparr>unchanged_trigger_count := unchanged_trigger_count h1 + 1\<rparr>
                        in if unchanged_trigger_count h2 \<ge> MAX_UNCHANGED_TRIGGERS
                           then force_stop h2 ''brush size not changing''
                           else h2)
                  else h1\<lparr>unchanged_trigger_count := 0, last_brush_size := Some a\<rparr>))"

text \<open>
  \<^verbatim>\<open>_on_timer\<close>; \<open>current_time\<close> is the reading of the clock, the two sizes are the
  readings of the safety check if it runs.
\<close>

definition on_timer ::
  "handler \<Rightarrow> real \<Rightarrow> real option \<Rightarrow> real option \<Rightarrow> error + handler" where
  "on_timer h current_time size_before size_after =
     (if \<not> is_pressed h then Inr (h\<lparr>timer := None\<rparr>)
      else (let elapsed_since_start = current_time - press_start_time h;
                elapsed_since_trigger = current_time - last_trigger_time h
            in if elapsed_since_start > MAX_PRESS_DURATION
               then Inr (force_stop h ''max press duration exceeded'')
               else (let h1 = h\<lparr>last_timer_activity := current_time\<rparr>;
                         h2 = (if HOLD_ENABLED h1 \<and> elapsed_since_start \<ge> HOLD_DETECT_TIME h1 \<and>
                                  current_mode h1 \<noteq> HOLD \<and> \<not> burst_active h1
                               then h1\<lparr>current_mode := HOLD\<rparr>
                               else h1)
                     in if current_mode h2 \<noteq> HOLD then Inr h2
                        else (case get_current_interval h2 elapsed_since_start of
                                Inl e \<Rightarrow> Inl e
                              | Inr interval \<Rightarrow>
                                  if elapsed_since_trigger \<ge> interval
                                  then Inr ((trigger_action_with_safety_check h2 size_before size_after)
                                              \<lparr>last_trigger_time := current_time\<rparr>)
                                  else Inr h2))))"

subsection \<open>Stale state\<close>

definition is_stale_state :: "handler \<Rightarrow> real \<Rightarrow> bool" where
  "is_stale_state h current_time =
     (if \<not> is_pressed h then False
      else (let time_since_activity = current_time - last_timer_activity h
            in time_since_activity > STALE_STATE_TIMEOUT))"

definition check_and_fix_stale_state :: "handler \<Rightarrow> real \<Rightarrow> bool \<times> handler" where
  "check_and_fix_stale_state h current_time =
     (if is_stale_state h current_time
      then (True, force_stop h ''stale state detected'')
      else (False, h))"

subsection \<open>Timer events\<close>

text \<open>
  The event loop of the toolkit calls a timer's slot only while the timer is active. The
  burst timer is single-shot: it is inactive when its slot runs. The poll timer repeats:
  it stays active until it is stopped.
\<close>

definition burst_timer_timeout :: "handler \<Rightarrow> real \<Rightarrow> handler" where
  "burst_timer_timeout h now =
     (case burst_timer h of
        None \<Rightarrow> h
      | Some ms \<Rightarrow> on_burst_timer (h\<lparr>burst_timer := None\<rparr>) now)"

definition timer_timeout ::
  "handler \<Rightarrow> real \<Rightarrow> real option \<Rightarrow> real option \<Rightarrow> error + handler" where
  "timer_timeout h current_time size_before size_after =
     (case timer h of
        None \<Rightarrow> Inr h
      | Some ms \<Rightarrow> on_timer h current_time size_before size_after)"

text \<open>The burst timer firing at each of the given times, the key staying as it is.\<close>

fun burst_timer_timeouts :: "handler \<Rightarrow> real list \<Rightarrow> handler" where
  "burst_timer_timeouts h [] = h"
| "burst_timer_timeouts h (t # ts) = burst_timer_timeouts (burst_timer_timeout h t) ts"

subsection \<open>The settings store\<close>

text \<open>
  The dictionaries \<^verbatim>\<open>DEFAULTS\<close>, \<^verbatim>\<open>_current\<close>, \<^verbatim>\<open>_saved\<close> and
  \<^verbatim>\<open>_before_reset\<close> have the same fourteen keys at all times, and every write keeps the
  Python type of the key's default (\<^verbatim>\<open>set\<close> and \<^verbatim>\<open>_load_from_krita\<close> coerce,
  \<^verbatim>\<open>set_threshold_enabled\<close> stores a \<^verbatim>\<open>bool\<close>), so a dictionary is a record with one
  typed field for each key.
\<close>

record settings =
  hold_detect_time :: real
  slow_tap_threshold :: real
  multiplier_threshold :: real
  hold_enabled :: bool
  slow_tap_enabled :: bool
  multiplier_enabled :: bool
  hold_base_interval :: real
  hold_min_interval :: real
  hold_exp_k :: real
  hold_tau :: real
  slow_burst_count :: int
  slow_burst_interval :: real
  multiplier_burst_count :: int
  multiplier_burst_interval :: real

definition DEFAULTS :: settings where
  "DEFAULTS =
     \<lparr> hold_detect_time = 0.200,
       slow_tap_threshold = 0.100,
       multiplier_threshold = 0.150,
       hold_enabled = True,
       slow_tap_enabled = True,
       multiplier_enabled = True,
       hold_base_interval = 0.10,
       hold_min_interval = 0.008,
       hold_exp_k = 8.0,
       hold_tau = 0.15,
       slow_burst_count = 3,
       slow_burst_interval = 0.015,
       multiplier_burst_count = 3,
       multiplier_burst_interval = 0.001 \<rparr>"

text \<open>\<^verbatim>\<open>THRESHOLD_TOGGLE_MAP\<close>, in the order of the source.\<close>

definition THRESHOLD_TOGGLE_MAP :: "(string \<times> string) list" where
  "THRESHOLD_TOGGLE_MAP =
     [(''hold_detect_time'', ''hold_enabled''),
      (''slow_tap_threshold'', ''slow_tap_enabled''),
      (''multiplier_threshold'', ''multiplier_enabled'')]"

text \<open>
  \<^verbatim>\<open>d.get(enabled_key, True)\<close> and \<^verbatim>\<open>d[enabled_key] = bool(enabled)\<close> for the keys
  that \<^verbatim>\<open>THRESHOLD_TOGGLE_MAP\<close> maps to.
\<close>

definition get_enabled_key :: "settings \<Rightarrow> string \<Rightarrow> bool" where
  "get_enabled_key d k =
     (if k = ''hold_enabled'' then hold_enabled d
      else if k = ''slow_tap_enabled'' then slow_tap_enabled d
      else if k = ''multiplier_enabled'' then multiplier_enabled d
      else True)"

definition set_enabled_key :: "settings \<Rightarrow> string \<Rightarrow> bool \<Rightarrow> settings" where
  "set_enabled_key d k b =
     (if k = ''hold_enabled'' then d\<lparr>hold_enabled := b\<rparr>
      else if k = ''slow_tap_enabled'' then d\<lparr>slow_tap_enabled := b\<rparr>
      else if k = ''multiplier_enabled'' then d\<lparr>multiplier_enabled := b\<rparr>
      else d)"

record store =
  current :: settings
  saved :: settings
  before_reset :: "settings option"
  handlers :: "addr list"

text \<open>
  \<^verbatim>\<open>SettingsManager.__init__\<close> where the host has nothing to load
  (\<^verbatim>\<open>_load_from_krita\<close> returns at once when \<^verbatim>\<open>Krita.instance()\<close> is \<^verbatim>\<open>None\<close>).
\<close>

definition init_store :: store where
  "init_store = \<lparr> current = DEFAULTS, saved = DEFAULTS, before_reset = None, handlers = [] \<rparr>"

text \<open>\<^verbatim>\<open>_apply_to_handler\<close> and \<^verbatim>\<open>_update_handlers\<close>.\<close>

definition apply_to_handler :: "store \<Rightarrow> handler \<Rightarrow> handler" where
  "apply_to_handler st h =
     h\<lparr>HOLD_DETECT_TIME := hold_detect_time (current st),
       SLOW_TAP_THRESHOLD := slow_tap_threshold (current st),
       MULTIPLIER_THRESHOLD := multiplier_threshold (current st),
       HOLD_ENABLED := hold_enabled (current st),
       SLOW_TAP_ENABLED := slow_tap_enabled (current st),
       MULTIPLIER_ENABLED := multiplier_enabled (current st),
       HOLD_BASE_INTERVAL := hold_base_interval (current st),
       HOLD_MIN_INTERVAL := hold_min_interval (current st),
       HOLD_EXP_K := hold_exp_k (current st),
       HOLD_TAU := hold_tau (current st),
       SLOW_BURST_COUNT := slow_burst_count (current st),
       SLOW_BURST_INTERVAL := slow_burst_interval (current st),
       MULTIPLIER_BURST_COUNT := multiplier_burst_count (current st),
       MULTIPLIER_BURST_INTERVAL := multiplier_burst_interval (current st)\<rparr>"

fun apply_to_all :: "store \<Rightarrow> addr list \<Rightarrow> heap \<Rightarrow> heap" where
  "apply_to_all st [] hp = hp"
| "apply_to_all st (a # as) hp = apply_to_all st as (hp(a := apply_to_handler st (hp a)))"

definition update_handlers :: "store \<Rightarrow> heap \<Rightarrow> heap" where
  "update_handlers st hp = apply_to_all st (handlers st) hp"

text \<open>
  A handler carries a configuration when its fourteen configurable attributes are the
  values of the dictionary, which is what \<^verbatim>\<open>_apply_to_handler\<close> assigns.
\<close>

definition configured :: "settings \<Rightarrow> handler \<Rightarrow> bool" where
  "configured d h \<longleftrightarrow>
     HOLD_DETECT_TIME h = hold_detect_time d \<and>
     SLOW_TAP_THRESHOLD h = slow_tap_threshold d \<and>
     MULTIPLIER_THRESHOLD h = multiplier_threshold d \<and>
     HOLD_ENABLED h = hold_enabled d \<and>
     SLOW_TAP_ENABLED h = slow_tap_enabled d \<and>
     MULTIPLIER_ENABLED h = multiplier_enabled d \<and>
     HOLD_BASE_INTERVAL h = hold_base_interval d \<and>
     HOLD_MIN_INTERVAL h = hold_min_interval d \<and>
     HOLD_EXP_K h = hold_exp_k d \<and>
     HOLD_TAU h = hold_tau d \<and>
     SLOW_BURST_COUNT h = slow_burst_count d \<and>
     SLOW_BURST_INTERVAL h = slow_burst_interval d \<and>
     MULTIPLIER_BURST_COUNT h = multiplier_burst_count d \<and>
     MULTIPLIER_BURST_INTERVAL h = multiplier_burst_interval d"

text \<open>\<^verbatim>\<open>is_threshold_enabled\<close>, \<^verbatim>\<open>set_threshold_enabled\<close>, \<^verbatim>\<open>get_enabled_threshold_count\<close>.\<close>

definition is_threshold_enabled :: "store \<Rightarrow> string \<Rightarrow> bool" where
  "is_threshold_enabled st threshold_key =
     (case map_of THRESHOLD_TOGGLE_MAP threshold_key of
        Some enabled_key \<Rightarrow> get_enabled_key (current st) enabled_key
      | None \<Rightarrow> True)"

definition set_threshold_enabled :: "store \<Rightarrow> heap \<Rightarrow> string \<Rightarrow> bool \<Rightarrow> store \<times> heap" where
  "set_threshold_enabled st hp threshold_key enabled =
     (case map_of THRESHOLD_TOGGLE_MAP threshold_key of
        Some enabled_key \<Rightarrow>
          (let st1 = st\<lparr>current := set_enabled_key (current st) enabled_key enabled\<rparr>
           in (st1, update_handlers st1 hp))
      | None \<Rightarrow> (st, hp))"

definition get_enabled_threshold_count :: "store \<Rightarrow> nat" where
  "get_enabled_threshold_count st =
     length (filter (get_enabled_key (current st)) (map snd THRESHOLD_TOGGLE_MAP))"

text \<open>
  \<^verbatim>\<open>_save_to_krita\<close> and \<^verbatim>\<open>save\<close>. The host is \<open>None\<close> when \<^verbatim>\<open>Krita.instance()\<close>
  is \<^verbatim>\<open>None\<close>; otherwise it is what the settings group holds, which after the writes is
  the current dictionary.
\<close>

type_synonym krita = settings

definition save_to_krita :: "store \<Rightarrow> krita option \<Rightarrow> bool \<times> krita option" where
  "save_to_krita st app =
     (case app of
        None \<Rightarrow> (False, None)
      | Some k \<Rightarrow> (True, Some (current st)))"

definition save :: "store \<Rightarrow> krita option \<Rightarrow> bool \<times> store \<times> krita option" where
  "save st app =
     (case save_to_krita st app of
        (True, app1) \<Rightarrow> (True, st\<lparr>saved := current st, before_reset := None\<rparr>, app1)
      | (False, app1) \<Rightarrow> (False, st, app1))"

definition cancel :: "store \<Rightarrow> heap \<Rightarrow> store \<times> heap" where
  "cancel st hp =
     (let st1 = (case before_reset st of
                   Some b \<Rightarrow> st\<lparr>current := b, before_reset := None\<rparr>
                 | None \<Rightarrow> st\<lparr>current := saved st\<rparr>)
      in (st1, update_handlers st1 hp))"

definition reset_to_defaults :: "store \<Rightarrow> heap \<Rightarrow> store \<times> heap" where
  "reset_to_defaults st hp =
     (let st1 = st\<lparr>before_reset := Some (current st), current := DEFAULTS\<rparr>
      in (st1, update_handlers st1 hp))"

subsection \<open>The checkbox of a threshold row\<close>

text \<open>
  \<^verbatim>\<open>ThresholdSettingRow._on_checkbox_changed\<close>, as far as it acts on the store: \<open>row_key\<close>
  is the row's key, \<open>updating\<close> its flag \<^verbatim>\<open>_updating\<close>, \<open>is_checked\<close> the new state
  of the checkbox.
\<close>

definition on_checkbox_changed ::
  "string \<Rightarrow> bool \<Rightarrow> bool \<Rightarrow> store \<times> heap \<Rightarrow> store \<times> heap" where
  "on_checkbox_changed row_key updating is_checked sh =
     (if updating then sh
      else if \<not> is_checked \<and> get_enabled_threshold_count (fst sh) \<le> 1 then sh
      else set_threshold_enabled (fst sh) (snd sh) row_key is_checked)"

text \<open>A sequence of checkbox events \<open>(row_key, updating, is_checked)\<close>.\<close>

fun checkbox_events :: "(string \<times> bool \<times> bool) list \<Rightarrow> store \<times> heap \<Rightarrow> store \<times> heap" where
  "checkbox_events [] sh = sh"
| "checkbox_events ((row_key, updating, is_checked) # evs) sh =
     checkbox_events evs (on_checkbox_changed row_key updating is_checked sh)"

subsection \<open>Registration and pairing\<close>

text \<open>\<^verbatim>\<open>register_handler\<close>: the handler at address \<open>a\<close> joins the push list.\<close>

definition register_handler :: "store \<Rightarrow> heap \<Rightarrow> addr \<Rightarrow> store \<times> heap" where
  "register_handler st hp a =
     (if a \<in> set (handlers st) then (st, hp)
      else (let st1 = st\<lparr>handlers := handlers st @ [a]\<rparr>
            in (st1, hp(a := apply_to_handler st1 (hp a)))))"

text \<open>
  The handlers of \<^verbatim>\<open>createActions\<close>: two new objects at the addresses \<open>d\<close> (decrease)
  and \<open>i\<close> (increase), registered with the store and wired as each other's pair.
\<close>

definition create_actions :: "store \<Rightarrow> heap \<Rightarrow> addr \<Rightarrow> addr \<Rightarrow> store \<times> heap" where
  "create_actions st hp d i =
     (let hp1 = hp(d := new_handler ''decrease_brush_size'');
          hp2 = hp1(i := new_handler ''increase_brush_size'');
          (st1, hp3) = register_handler st hp2 d;
          (st2, hp4) = register_handler st1 hp3 i;
          hp5 = hp4(d := (hp4 d)\<lparr>paired_handler := Some i\<rparr>);
          hp6 = hp5(i := (hp5 i)\<lparr>paired_handler := Some d\<rparr>)
      in (st2, hp6))"

subsection \<open>Calls and callbacks on the handlers of a store\<close>

datatype event =
    StartPress addr real real "real option"
  | EndPress addr real
  | ForceStop addr string
  | BurstTimeout addr real
  | TimerTimeout addr real "real option" "real option"
  | CheckStale addr real

fun step :: "heap \<Rightarrow> event \<Rightarrow> error + heap" where
  "step hp (StartPress a now now' brush_size) = Inr (start_press hp a now now' brush_size)"
| "step hp (EndPress a now) = Inr (hp(a := end_press (hp a) now))"
| "step hp (ForceStop a reason) = Inr (hp(a := force_stop (hp a) reason))"
| "step hp (BurstTimeout a now) = Inr (hp(a := burst_timer_timeout (hp a) now))"
| "step hp (TimerTimeout a now size_before size_after) =
     (case timer_timeout (hp a) now size_before size_after of
        Inl e \<Rightarrow> Inl e
      | Inr h \<Rightarrow> Inr (hp(a := h)))"
| "step hp (CheckStale a now) = Inr (hp(a := snd (check_and_fix_stale_state (hp a) now)))"

text \<open>A sequence of events; an exception ends it.\<close>

fun run :: "heap \<Rightarrow> event list \<Rightarrow> error + heap" where
  "run hp [] = Inr hp"
| "run hp (ev # evs) = (case step hp ev of Inl e \<Rightarrow> Inl e | Inr hp1 \<Rightarrow> run hp1 evs)"

text \<open>Two handlers wired as each other's pair.\<close>

definition wired :: "heap \<Rightarrow> addr \<Rightarrow> addr \<Rightarrow> bool" where
  "wired hp a b \<longleftrightarrow>
     a \<noteq> b \<and> paired_handler (hp a) = Some b \<and> paired_handler (hp b) = Some a"

definition exclusive :: "heap \<Rightarrow> addr \<Rightarrow> addr \<Rightarrow> bool" where
  "exclusive hp a b \<longleftrightarrow> wired hp a b \<and> \<not> (is_pressed (hp a) \<and> is_pressed (hp b))"

text \<open>
  An operation is calm when it keeps the reference to the pair and never marks a handler
  pressed that was not.
\<close>

definition calm :: "handler \<Rightarrow> handler \<Rightarrow> bool" where
  "calm h h' \<longleftrightarrow> paired_handler h' = paired_handler h \<and> (is_pressed h' \<longrightarrow> is_pressed h)"

text \<open>A handler is settled when it is pressed or has no timer armed.\<close>

definition settled :: "handler \<Rightarrow> bool" where
  "settled h \<longleftrightarrow> is_pressed h \<or> (timer h = None \<and> burst_timer h = None)"

subsection \<open>Readings of the safety check\<close>

text \<open>
  The two outcomes that \<^verbatim>\<open>_trigger_action_with_safety_check\<close> tells apart when both
  readings are there: the size is unchanged (within \<open>0.001\<close>), or it changed.
\<close>

definition size_unchanged :: "real option \<Rightarrow> real option \<Rightarrow> bool" where
  "size_unchanged size_before size_after =
     (case size_before of
        None \<Rightarrow> False
      | Some b \<Rightarrow> (case size_after of None \<Rightarrow> False | Some a \<Rightarrow> \<bar>b - a\<bar> < 0.001))"

definition size_changed :: "real option \<Rightarrow> real option \<Rightarrow> bool" where
  "size_changed size_before size_after =
     (case size_before of
        None \<Rightarrow> False
      | Some b \<Rightarrow> (case size_after of None \<Rightarrow> False | Some a \<Rightarrow> \<not> \<bar>b - a\<bar> < 0.001))"

text \<open>Consecutive safety-checked triggers, each with its two readings.\<close>

fun safety_checked_triggers :: "handler \<Rightarrow> (real option \<times> real option) list \<Rightarrow> handler" where
  "safety_checked_triggers h [] = h"
| "safety_checked_triggers h ((size_before, size_after) # rs) =
     safety_checked_triggers (trigger_action_with_safety_check h size_before size_after) rs"

text \<open>A sequence of \<^verbatim>\<open>set_threshold_enabled(key, False)\<close> calls on the store.\<close>

fun disable_thresholds :: "string list \<Rightarrow> store \<times> heap \<Rightarrow> store \<times> heap" where
  "disable_thresholds [] sh = sh"
| "disable_thresholds (k # ks) sh =
     disable_thresholds ks (set_threshold_enabled (fst sh) (snd sh) k False)"

subsection \<open>Example states\<close>

text \<open>
  A store with no objects yet, the two handlers of a window at the addresses 0 (decrease)
  and 1 (increase), and states reached from there.
\<close>

definition fresh_heap :: heap where
  "fresh_heap = (\<lambda>a. new_handler [])"

definition created :: "store \<times> heap" where
  "created = create_actions init_store fresh_heap 0 1"

definition paired_heap :: heap where
  "paired_heap = snd created"

text \<open>Hold mode switched off through the store.\<close>

definition tap_only_heap :: heap where
  "tap_only_heap = snd (set_threshold_enabled (fst created) (snd created) ''hold_detect_time'' False)"

text \<open>The increase key pressed at time 100.\<close>

definition increase_pressed_heap :: heap where
  "increase_pressed_heap = start_press paired_heap 1 100 100 (Some 50)"

text \<open>The increase key pressed at 99.9 and released at 99.95.\<close>

definition released_heap :: heap where
  "released_heap =
     (start_press paired_heap 1 99.9 99.9 (Some 50))
       (1 := end_press (start_press paired_heap 1 99.9 99.9 (Some 50) 1) 99.95)"

text \<open>A tap burst of twenty, the largest the settings panel offers.\<close>

definition burst20_handler :: handler where
  "burst20_handler = (paired_heap 0)\<lparr>SLOW_BURST_COUNT := 20\<rparr>"

text \<open>A key held since time 100, in hold mode, last trigger at 100.\<close>

definition held_handler :: handler where
  "held_handler =
     (paired_heap 1)
       \<lparr>is_pressed := True, current_mode := HOLD, press_start_time := 100,
        last_trigger_time := 100, last_timer_activity := 100.195, timer := Some 5\<rparr>"

text \<open>The same key with fourteen unchanged triggers counted.\<close>

definition pinned_handler :: handler where
  "pinned_handler = held_handler\<lparr>unchanged_trigger_count := 14\<rparr>"

text \<open>A store with a pending reset: the burst count was 5 before the reset.\<close>

definition pending_reset_store :: "store \<times> heap" where
  "pending_reset_store =
     reset_to_defaults ((fst created)\<lparr>current := DEFAULTS\<lparr>slow_burst_count := 5\<rparr>\<rparr>) (snd created)"

section \<open>Properties\<close>

subsection \<open>The example states, evaluated\<close>

lemmas handler_ops =
  trigger_action_def cleanup_state_def end_press_def force_stop_def finish_burst_def
  start_burst_def on_burst_timer_def handle_slow_tap_def start_press_self_def start_press_def
  burst_timer_timeout_def py_int_def Let_def

lemmas store_ops =
  create_actions_def register_handler_def init_store_def apply_to_handler_def DEFAULTS_def
  set_threshold_enabled_def update_handlers_def THRESHOLD_TOGGLE_MAP_def set_enabled_key_def
  get_enabled_key_def get_enabled_threshold_count_def

lemma created_store:
  "current (fst created) = DEFAULTS" "saved (fst created) = DEFAULTS"
  "before_reset (fst created) = None" "handlers (fst created) = [0, Suc 0]"
  by (simp_all add: created_def create_actions_def register_handler_def init_store_def Let_def)

lemma paired_heap_0:
  "paired_heap 0 =
     (new_handler ''decrease_brush_size'')
       \<lparr>HOLD_DETECT_TIME := 0.2, SLOW_TAP_THRESHOLD := 0.1, MULTIPLIER_BURST_COUNT := 3,
        MULTIPLIER_BURST_INTERVAL := 0.001, paired_handler := Some 1\<rparr>"
  by (simp add: paired_heap_def created_def store_ops fresh_heap_def new_handler_def Let_def)

lemma paired_heap_1:
  "paired_heap 1 =
     (new_handler ''increase_brush_size'')
       \<lparr>HOLD_DETECT_TIME := 0.2, SLOW_TAP_THRESHOLD := 0.1, MULTIPLIER_BURST_COUNT := 3,
        MULTIPLIER_BURST_INTERVAL := 0.001, paired_handler := Some 0\<rparr>"
  by (simp add: paired_heap_def created_def store_ops fresh_heap_def new_handler_def Let_def)

lemma paired_heap_Suc_0:
  "paired_heap (Suc 0) =
     (new_handler ''increase_brush_size'')
       \<lparr>HOLD_DETECT_TIME := 0.2, SLOW_TAP_THRESHOLD := 0.1, MULTIPLIER_BURST_COUNT := 3,
        MULTIPLIER_BURST_INTERVAL := 0.001, paired_handler := Some 0\<rparr>"
  using paired_heap_1 by simp

lemma tap_only_heap_Suc_0:
  "tap_only_heap (Suc 0) = (paired_heap (Suc 0))\<lparr>HOLD_ENABLED := False\<rparr>"
  by (simp add: tap_only_heap_def paired_heap_def created_def store_ops fresh_heap_def
      new_handler_def Let_def)

lemmas example_heaps = paired_heap_0 paired_heap_Suc_0 tap_only_heap_Suc_0 new_handler_def

subsection \<open>Forced stop and release\<close>

lemma current_burst_interval_start_burst:
  "current_burst_interval (start_burst h c i now) = i"
  by (simp add: start_burst_def trigger_action_def finish_burst_def Let_def)

lemma current_burst_interval_start_press_self:
  "current_burst_interval (start_press_self h now now' s) =
     (if SLOW_TAP_ENABLED h \<and>
         (last_release_time h = 0 \<or> now - last_release_time h < SLOW_TAP_THRESHOLD h) \<and>
         MULTIPLIER_ENABLED h \<and> last_release_time h > 0 \<and>
         now - last_release_time h < MULTIPLIER_THRESHOLD h
      then MULTIPLIER_BURST_INTERVAL h else SLOW_BURST_INTERVAL h)"
  by (simp add: start_press_self_def handle_slow_tap_def Let_def current_burst_interval_start_burst)

text \<open>
  C6. \<^verbatim>\<open>force_stop\<close> stops both timers, clears the burst state and marks the handler not
  pressed, and it never changes \<open>last_release_time\<close>, in any state. \<^verbatim>\<open>end_press\<close> on a
  pressed handler does the same cleanup and sets \<open>last_release_time\<close> to the current time.
  So the press that follows a forced stop is classified (multiplied burst or plain burst)
  from the release time the handler had before the forced stop.
\<close>

theorem force_stop_keeps_last_release_time:
  "last_release_time (force_stop h reason) = last_release_time h \<and>
   \<not> is_pressed (force_stop h reason) \<and>
   timer (force_stop h reason) = None \<and>
   burst_timer (force_stop h reason) = None \<and>
   burst_remaining (force_stop h reason) = 0 \<and>
   \<not> burst_active (force_stop h reason) \<and>
   (is_pressed h \<longrightarrow>
      last_release_time (end_press h now) = now \<and>
      end_press h now = (force_stop h reason)\<lparr>last_release_time := now\<rparr>) \<and>
   current_burst_interval (start_press_self (force_stop h reason) t t' s) =
     (if SLOW_TAP_ENABLED h \<and>
         (last_release_time h = 0 \<or> t - last_release_time h < SLOW_TAP_THRESHOLD h) \<and>
         MULTIPLIER_ENABLED h \<and> last_release_time h > 0 \<and>
         t - last_release_time h < MULTIPLIER_THRESHOLD h
      then MULTIPLIER_BURST_INTERVAL h else SLOW_BURST_INTERVAL h)"
proof -
  have frame: "last_release_time (force_stop h reason) = last_release_time h"
    "SLOW_TAP_ENABLED (force_stop h reason) = SLOW_TAP_ENABLED h"
    "MULTIPLIER_ENABLED (force_stop h reason) = MULTIPLIER_ENABLED h"
    "SLOW_TAP_THRESHOLD (force_stop h reason) = SLOW_TAP_THRESHOLD h"
    "MULTIPLIER_THRESHOLD (force_stop h reason) = MULTIPLIER_THRESHOLD h"
    "MULTIPLIER_BURST_INTERVAL (force_stop h reason) = MULTIPLIER_BURST_INTERVAL h"
    "SLOW_BURST_INTERVAL (force_stop h reason) = SLOW_BURST_INTERVAL h"
    by (simp_all add: force_stop_def cleanup_state_def)
  have stopped: "\<not> is_pressed (force_stop h reason)" "timer (force_stop h reason) = None"
    "burst_timer (force_stop h reason) = None" "burst_remaining (force_stop h reason) = 0"
    "\<not> burst_active (force_stop h reason)"
    by (simp_all add: force_stop_def cleanup_state_def)
  have release: "is_pressed h \<longrightarrow>
      last_release_time (end_press h now) = now \<and>
      end_press h now = (force_stop h reason)\<lparr>last_release_time := now\<rparr>"
    by (simp add: force_stop_def end_press_def cleanup_state_def)
  show ?thesis
    unfolding current_burst_interval_start_press_self frame
    using stopped release frame(1) by blast
qed

text \<open>
  The increase key, pressed at 100 after a release at 99.95, is stopped by force at 100.3;
  the next press at 100.5 is a plain burst, since 99.95 is too long ago, although the
  forced stop was 0.2 seconds ago. A release at 100.3 instead is stamped.
\<close>

theorem force_stop_keeps_last_release_time_witness:
  "is_pressed (start_press released_heap 1 100 100 (Some 50) 1) \<and>
   last_release_time (start_press released_heap 1 100 100 (Some 50) 1) = 99.95 \<and>
   last_release_time (force_stop (start_press released_heap 1 100 100 (Some 50) 1) ''x'') = 99.95 \<and>
   last_release_time (end_press (start_press released_heap 1 100 100 (Some 50) 1) 100.3) = 100.3 \<and>
   current_burst_interval
     (start_press_self (force_stop (start_press released_heap 1 100 100 (Some 50) 1) ''x'')
        100.5 100.5 (Some 50)) = 0.015"
proof -
  define H where "H = start_press released_heap 1 100 100 (Some 50) 1"
  have "is_pressed H \<and> last_release_time H = 99.95 \<and> SLOW_TAP_ENABLED H \<and>
    SLOW_TAP_THRESHOLD H = 0.1 \<and> SLOW_BURST_INTERVAL H = 0.015"
    unfolding H_def by (simp add: released_heap_def example_heaps handler_ops)
  then have f: "is_pressed H" "last_release_time H = 99.95" "SLOW_TAP_ENABLED H"
    "SLOW_TAP_THRESHOLD H = 0.1" "SLOW_BURST_INTERVAL H = 0.015"
    by simp_all
  show ?thesis
    unfolding H_def [symmetric]
    using force_stop_keeps_last_release_time [of H "''x''" "100.3" "100.5" "100.5" "Some 50"]
    by (simp add: f)
qed

subsection \<open>Stale state\<close>

text \<open>
  C9. \<^verbatim>\<open>is_stale_state\<close> is true if and only if the handler is marked pressed and the
  time since the last recorded timer activity exceeds the stale timeout of 0.5 seconds.
  For a stale handler, one call of \<^verbatim>\<open>check_and_fix_stale_state\<close> returns true and
  force-stops the handler (not pressed, both timers stopped); for a handler that is not
  stale it returns false and changes nothing.
\<close>

theorem stale_state_detection:
  "(is_stale_state h now \<longleftrightarrow> is_pressed h \<and> now - last_timer_activity h > STALE_STATE_TIMEOUT) \<and>
   STALE_STATE_TIMEOUT = 0.5 \<and>
   (is_stale_state h now \<longrightarrow>
      fst (check_and_fix_stale_state h now) \<and>
      snd (check_and_fix_stale_state h now) = force_stop h ''stale state detected'' \<and>
      \<not> is_pressed (snd (check_and_fix_stale_state h now)) \<and>
      timer (snd (check_and_fix_stale_state h now)) = None \<and>
      burst_timer (snd (check_and_fix_stale_state h now)) = None) \<and>
   (\<not> is_stale_state h now \<longrightarrow> check_and_fix_stale_state h now = (False, h))"
  by (simp add: is_stale_state_def check_and_fix_stale_state_def STALE_STATE_TIMEOUT_def
        force_stop_def cleanup_state_def)

text \<open>
  The held key, last timer activity at 100.195: stale at 100.8 and fixed by one call, not
  stale at 100.5 and left as it is.
\<close>

theorem stale_state_detection_witness:
  "is_stale_state held_handler 100.8 \<and>
   fst (check_and_fix_stale_state held_handler 100.8) \<and>
   is_pressed (snd (check_and_fix_stale_state held_handler 100.8)) = False \<and>
   timer (snd (check_and_fix_stale_state held_handler 100.8)) = None \<and>
   is_stale_state held_handler 100.5 = False \<and>
   check_and_fix_stale_state held_handler 100.5 = (False, held_handler)"
proof -
  have f: "is_pressed held_handler" "last_timer_activity held_handler = 100.195"
    by (simp_all add: held_handler_def)
  have stale: "is_stale_state held_handler 100.8"
    and fresh: "\<not> is_stale_state held_handler 100.5"
    using stale_state_detection [of held_handler "100.8"]
      stale_state_detection [of held_handler "100.5"]
    by (simp_all add: f)
  show ?thesis
    using stale fresh stale_state_detection [of held_handler "100.8"]
      stale_state_detection [of held_handler "100.5"]
    by blast
qed

subsection \<open>The settings store\<close>

lemma apply_to_handler_idem:
  "apply_to_handler st (apply_to_handler st' h) = apply_to_handler st h"
  by (simp add: apply_to_handler_def)

lemma apply_to_all_at:
  "apply_to_all st as hp a = (if a \<in> set as then apply_to_handler st (hp a) else hp a)"
  by (induction as arbitrary: hp) (auto simp: apply_to_handler_idem)

lemma update_handlers_at:
  "update_handlers st hp a = (if a \<in> set (handlers st) then apply_to_handler st (hp a) else hp a)"
  by (simp add: update_handlers_def apply_to_all_at)

lemma configured_apply_to_handler: "configured (current st) (apply_to_handler st h)"
  by (simp add: configured_def apply_to_handler_def)

text \<open>
  C8. For every state of the store, \<^verbatim>\<open>reset_to_defaults\<close> followed at once by
  \<^verbatim>\<open>cancel\<close> restores the current values to those held before the reset (every key
  equal) and clears the reset-undo snapshot; the last-saved snapshot and the list of
  registered handlers are as before the reset. \<^verbatim>\<open>cancel\<close> with no pending reset
  restores the last-saved snapshot, and with a pending reset the snapshot of that reset.
  In either case the list of registered handlers is the one before the call, every handler
  registered before the call carries the restored configuration afterwards (its other
  attributes are untouched), and no other object is changed.
\<close>

theorem reset_then_cancel_restores:
  "reset_to_defaults st hp = (st1, hp1) \<Longrightarrow> cancel st1 hp1 = (st2, hp2) \<Longrightarrow>
   cancel st hp = (st3, hp3) \<Longrightarrow>
   current st2 = current st \<and> before_reset st2 = None \<and> saved st2 = saved st \<and>
   handlers st2 = handlers st \<and>
   (\<forall>a. hp2 a = (if a \<in> set (handlers st) then apply_to_handler st2 (hp a) else hp a)) \<and>
   (\<forall>a \<in> set (handlers st). configured (current st) (hp2 a)) \<and>
   (before_reset st = None \<longrightarrow> current st3 = saved st) \<and>
   (\<forall>b. before_reset st = Some b \<longrightarrow> current st3 = b) \<and>
   before_reset st3 = None \<and> saved st3 = saved st \<and>
   handlers st3 = handlers st \<and>
   (\<forall>a. hp3 a = (if a \<in> set (handlers st) then apply_to_handler st3 (hp a) else hp a)) \<and>
   (\<forall>a \<in> set (handlers st). configured (current st3) (hp3 a))"
proof -
  assume r: "reset_to_defaults st hp = (st1, hp1)" and c: "cancel st1 hp1 = (st2, hp2)"
    and c0: "cancel st hp = (st3, hp3)"
  have st1: "st1 = st\<lparr>before_reset := Some (current st), current := DEFAULTS\<rparr>"
    and hp1: "hp1 = update_handlers st1 hp"
    using r by (auto simp: reset_to_defaults_def Let_def)
  have st2: "st2 = st1\<lparr>current := current st, before_reset := None\<rparr>"
    and hp2: "hp2 = update_handlers st2 hp1"
    using c by (auto simp: cancel_def Let_def st1)
  have st3: "st3 = (case before_reset st of
                      Some b \<Rightarrow> st\<lparr>current := b, before_reset := None\<rparr>
                    | None \<Rightarrow> st\<lparr>current := saved st\<rparr>)"
    and hp3: "hp3 = update_handlers st3 hp"
    using c0 by (auto simp: cancel_def Let_def)
  have a: "current st2 = current st" "before_reset st2 = None" "saved st2 = saved st"
    "handlers st2 = handlers st1" "handlers st1 = handlers st"
    by (simp_all add: st2 st1)
  have a': "handlers st2 = handlers st" using a(4,5) by simp
  have b: "hp2 x = (if x \<in> set (handlers st) then apply_to_handler st2 (hp x) else hp x)" for x
    unfolding hp2 hp1 update_handlers_at a by (simp add: apply_to_handler_idem)
  have b': "configured (current st) (hp2 x)" if "x \<in> set (handlers st)" for x
    using that configured_apply_to_handler [of st2 "hp x"] unfolding b a(1) by simp
  have d: "before_reset st = None \<longrightarrow> current st3 = saved st"
    "\<forall>b. before_reset st = Some b \<longrightarrow> current st3 = b" "before_reset st3 = None"
    "saved st3 = saved st" "handlers st3 = handlers st"
    by (simp_all add: st3 split: option.splits)
  have e: "hp3 x = (if x \<in> set (handlers st) then apply_to_handler st3 (hp x) else hp x)" for x
    unfolding hp3 update_handlers_at d(5) ..
  have e': "configured (current st3) (hp3 x)" if "x \<in> set (handlers st)" for x
    using that configured_apply_to_handler [of st3 "hp x"] unfolding e by simp
  show ?thesis using a(1,2,3) a' b b' d e e' by blast
qed

text \<open>
  A store whose burst count was 5 when the reset came: the cancel brings the 5 back, also
  in the two registered handlers, which are still the registered ones. The store as
  created has no pending reset: cancel restores the saved defaults and pushes them.
\<close>

theorem reset_then_cancel_restores_witness:
  "current (fst (cancel (fst pending_reset_store) (snd pending_reset_store))) =
     DEFAULTS\<lparr>slow_burst_count := 5\<rparr> \<and>
   before_reset (fst (cancel (fst pending_reset_store) (snd pending_reset_store))) = None \<and>
   handlers (fst (cancel (fst pending_reset_store) (snd pending_reset_store))) = [0, 1] \<and>
   SLOW_BURST_COUNT (snd (cancel (fst pending_reset_store) (snd pending_reset_store)) 0) = 5 \<and>
   SLOW_BURST_COUNT (snd (cancel (fst pending_reset_store) (snd pending_reset_store)) 1) = 5 \<and>
   before_reset (fst created) = None \<and>
   current (fst (cancel (fst created) (snd created))) = DEFAULTS \<and>
   handlers (fst (cancel (fst created) (snd created))) = [0, 1] \<and>
   configured DEFAULTS (snd (cancel (fst created) (snd created)) 1)"
proof -
  define st where "st = (fst created)\<lparr>current := DEFAULTS\<lparr>slow_burst_count := 5\<rparr>\<rparr>"
  define R where "R = cancel (fst pending_reset_store) (snd pending_reset_store)"
  define Q where "Q = cancel (fst created) (snd created)"
  have p: "reset_to_defaults st (snd created) = (fst pending_reset_store, snd pending_reset_store)"
    by (simp add: pending_reset_store_def st_def)
  have f: "current st = DEFAULTS\<lparr>slow_burst_count := 5\<rparr>" "handlers st = [0, Suc 0]"
    "before_reset (fst created) = None" "saved (fst created) = DEFAULTS"
    "handlers (fst created) = [0, Suc 0]"
    by (simp_all add: st_def created_store)
  have mem: "0 \<in> set (handlers st)" "Suc 0 \<in> set (handlers st)"
    "Suc 0 \<in> set (handlers (fst created))"
    by (simp_all add: f)
  have pr: "cancel (fst pending_reset_store) (snd pending_reset_store) = (fst R, snd R)"
    and pq: "cancel (fst created) (snd created) = (fst Q, snd Q)"
    by (simp_all add: R_def Q_def)
  note w1 = reset_then_cancel_restores [OF p pr prod.collapse [symmetric]]
  note w2 = reset_then_cancel_restores
      [OF prod.collapse [symmetric] prod.collapse [symmetric] pq]
  have r1: "current (fst R) = current st" "before_reset (fst R) = None"
    "handlers (fst R) = handlers st"
    "\<forall>a \<in> set (handlers st). configured (current st) (snd R a)"
    using w1 by blast+
  have c0: "configured (current st) (snd R 0)" and c1: "configured (current st) (snd R (Suc 0))"
    using r1(4) mem(1,2) by blast+
  have burst: "SLOW_BURST_COUNT (snd R 0) = 5" "SLOW_BURST_COUNT (snd R (Suc 0)) = 5"
    using c0 c1 by (simp_all add: configured_def f(1))
  have r2: "current (fst Q) = saved (fst created)" "handlers (fst Q) = handlers (fst created)"
    "\<forall>a \<in> set (handlers (fst created)). configured (current (fst Q)) (snd Q a)"
    using w2 f(3) by blast+
  have q: "configured DEFAULTS (snd Q (Suc 0))"
    using r2(3) mem(3) unfolding r2(1) f(4) by blast
  show ?thesis
    unfolding R_def [symmetric] Q_def [symmetric]
    using r1(1,2,3) burst r2(1,2) q f by simp
qed

text \<open>
  C10. When the host is not there at a \<^verbatim>\<open>save\<close>, the call returns failure and the
  store is unchanged: current values, last-saved snapshot and pending reset-undo snapshot
  keep their values. A \<^verbatim>\<open>cancel\<close> after it does what it would have done without the
  \<^verbatim>\<open>save\<close>; a reset that was pending is still undone by it.
\<close>

theorem save_unavailable_changes_nothing:
  "save st None = (False, st, None) \<and>
   cancel (fst (snd (save st None))) hp = cancel st hp \<and>
   current (fst (cancel (fst (snd (save (fst (reset_to_defaults st hp)) None)))
                  (snd (reset_to_defaults st hp)))) = current st"
  by (simp add: save_def save_to_krita_def cancel_def reset_to_defaults_def Let_def)

text \<open>
  The store does not refuse to disable the last enabled threshold: three calls of
  \<^verbatim>\<open>set_threshold_enabled\<close> with \<^verbatim>\<open>False\<close> on the store of the two handlers leave no
  flag enabled, in the store and in the handlers.
\<close>

theorem store_disables_all_counterexample:
  "get_enabled_threshold_count
     (fst (disable_thresholds
             [''hold_detect_time'', ''slow_tap_threshold'', ''multiplier_threshold''] created)) = 0 \<and>
   hold_enabled (current (fst (disable_thresholds
             [''hold_detect_time'', ''slow_tap_threshold'', ''multiplier_threshold''] created))) = False \<and>
   slow_tap_enabled (current (fst (disable_thresholds
             [''hold_detect_time'', ''slow_tap_threshold'', ''multiplier_threshold''] created))) = False \<and>
   multiplier_enabled (current (fst (disable_thresholds
             [''hold_detect_time'', ''slow_tap_threshold'', ''multiplier_threshold''] created))) = False \<and>
   HOLD_ENABLED (snd (disable_thresholds
             [''hold_detect_time'', ''slow_tap_threshold'', ''multiplier_threshold''] created) 0) = False \<and>
   SLOW_TAP_ENABLED (snd (disable_thresholds
             [''hold_detect_time'', ''slow_tap_threshold'', ''multiplier_threshold''] created) 0) = False \<and>
   MULTIPLIER_ENABLED (snd (disable_thresholds
             [''hold_detect_time'', ''slow_tap_threshold'', ''multiplier_threshold''] created) 0) = False"
  by (simp add: created_def store_ops fresh_heap_def new_handler_def Let_def)

lemma count_pos_iff:
  "1 \<le> get_enabled_threshold_count st \<longleftrightarrow>
     hold_enabled (current st) \<or> slow_tap_enabled (current st) \<or> multiplier_enabled (current st)"
  by (simp add: get_enabled_threshold_count_def THRESHOLD_TOGGLE_MAP_def get_enabled_key_def)

lemma count_le_1_iff:
  "get_enabled_threshold_count st \<le> 1 \<longleftrightarrow>
     \<not> (hold_enabled (current st) \<and> slow_tap_enabled (current st)) \<and>
     \<not> (hold_enabled (current st) \<and> multiplier_enabled (current st)) \<and>
     \<not> (slow_tap_enabled (current st) \<and> multiplier_enabled (current st))"
  by (simp add: get_enabled_threshold_count_def THRESHOLD_TOGGLE_MAP_def get_enabled_key_def)

lemma on_checkbox_changed_floor:
  "1 \<le> get_enabled_threshold_count (fst sh) \<Longrightarrow>
   1 \<le> get_enabled_threshold_count (fst (on_checkbox_changed k u c sh))"
  unfolding count_pos_iff on_checkbox_changed_def count_le_1_iff
  by (auto simp: set_threshold_enabled_def THRESHOLD_TOGGLE_MAP_def set_enabled_key_def Let_def)

lemma checkbox_events_floor:
  "1 \<le> get_enabled_threshold_count (fst sh) \<Longrightarrow>
   1 \<le> get_enabled_threshold_count (fst (checkbox_events evs sh))"
proof (induction evs arbitrary: sh)
  case Nil
  then show ?case by simp
next
  case (Cons ev evs)
  obtain k u c where ev: "ev = (k, u, c)" by (cases ev)
  show ?case
    unfolding ev checkbox_events.simps
    by (rule Cons.IH) (rule on_checkbox_changed_floor [OF Cons.prems])
qed

lemma set_threshold_enabled_stores:
  "map_of THRESHOLD_TOGGLE_MAP k = Some ek \<Longrightarrow>
   get_enabled_key (current (fst (set_threshold_enabled st hp k b))) ek = b"
  by (auto simp: set_threshold_enabled_def THRESHOLD_TOGGLE_MAP_def set_enabled_key_def
      get_enabled_key_def Let_def split: if_splits)

text \<open>
  C3 (as the code has it). \<^verbatim>\<open>set_threshold_enabled\<close> of the store makes no check: it
  stores the flag it is given. The floor is kept by the checkbox slot of the settings
  panel, which leaves the store alone when an uncheck comes while at most one threshold is
  enabled: from a store with at least one threshold enabled, every sequence of checkbox
  changes leaves at least one of \<open>hold_enabled\<close>, \<open>slow_tap_enabled\<close>,
  \<open>multiplier_enabled\<close> true.
\<close>

theorem checkbox_keeps_one_enabled:
  "(map_of THRESHOLD_TOGGLE_MAP k = Some ek \<longrightarrow>
      get_enabled_key (current (fst (set_threshold_enabled st hp k b))) ek = b) \<and>
   (1 \<le> get_enabled_threshold_count (fst sh) \<longrightarrow>
      1 \<le> get_enabled_threshold_count (fst (checkbox_events evs sh)) \<and>
      (hold_enabled (current (fst (checkbox_events evs sh))) \<or>
       slow_tap_enabled (current (fst (checkbox_events evs sh))) \<or>
       multiplier_enabled (current (fst (checkbox_events evs sh)))))"
  using set_threshold_enabled_stores [of k ek st hp b] checkbox_events_floor [of sh evs]
    count_pos_iff [of "fst (checkbox_events evs sh)"]
  by blast

text \<open>
  Unchecking the three boxes in turn in the panel: the third uncheck does nothing, the
  multiplier stays enabled.
\<close>

theorem checkbox_keeps_one_enabled_witness:
  "map_of THRESHOLD_TOGGLE_MAP ''hold_detect_time'' = Some ''hold_enabled'' \<and>
   get_enabled_key
     (current (fst (set_threshold_enabled (fst created) (snd created) ''hold_detect_time'' False)))
     ''hold_enabled'' = False \<and>
   1 \<le> get_enabled_threshold_count (fst created) \<and>
   1 \<le> get_enabled_threshold_count
         (fst (checkbox_events
                 [(''hold_detect_time'', False, False), (''slow_tap_threshold'', False, False),
                  (''multiplier_threshold'', False, False)] created))"
proof -
  have k: "map_of THRESHOLD_TOGGLE_MAP ''hold_detect_time'' = Some ''hold_enabled''"
    by (simp add: THRESHOLD_TOGGLE_MAP_def)
  have c: "1 \<le> get_enabled_threshold_count (fst created)"
    by (simp add: created_store get_enabled_threshold_count_def THRESHOLD_TOGGLE_MAP_def
        get_enabled_key_def DEFAULTS_def)
  show ?thesis
    using k c
      checkbox_keeps_one_enabled
        [of "''hold_detect_time''" "''hold_enabled''" "fst created" "snd created" False created
          "[(''hold_detect_time'', False, False), (''slow_tap_threshold'', False, False),
            (''multiplier_threshold'', False, False)]"]
    by blast
qed

subsection \<open>Mutual exclusion of paired handlers\<close>

lemma calm_refl: "calm h h"
  by (simp add: calm_def)

lemma calm_force_stop: "calm h (force_stop h r)"
  by (simp add: calm_def force_stop_def cleanup_state_def)

lemma calm_end_press: "calm h (end_press h now)"
  by (simp add: calm_def end_press_def cleanup_state_def)

lemma calm_on_burst_timer: "calm h (on_burst_timer h now)"
  by (simp add: calm_def on_burst_timer_def finish_burst_def trigger_action_def Let_def)

lemma calm_burst_timer_timeout: "calm h (burst_timer_timeout h now)"
  using calm_on_burst_timer [of "h\<lparr>burst_timer := None\<rparr>" now]
  by (simp add: burst_timer_timeout_def calm_def split: option.splits)

lemma calm_safety_check: "calm h (trigger_action_with_safety_check h sb sa)"
  by (simp add: calm_def trigger_action_with_safety_check_def trigger_action_def force_stop_def
      cleanup_state_def Let_def split: option.splits)

lemma calm_on_timer: "on_timer h now sb sa = Inr h' \<Longrightarrow> calm h h'"
  using calm_safety_check [of "h\<lparr>last_timer_activity := now, current_mode := HOLD\<rparr>" sb sa]
        calm_safety_check [of "h\<lparr>last_timer_activity := now\<rparr>" sb sa]
  by (auto simp: on_timer_def Let_def calm_def force_stop_def cleanup_state_def
      split: if_splits sum.splits)

lemma calm_timer_timeout: "timer_timeout h now sb sa = Inr h' \<Longrightarrow> calm h h'"
  by (auto simp: timer_timeout_def calm_refl calm_on_timer split: option.splits)

lemma calm_check_and_fix: "calm h (snd (check_and_fix_stale_state h now))"
  by (simp add: check_and_fix_stale_state_def calm_refl calm_force_stop)

lemma exclusive_calm:
  "exclusive hp a b \<Longrightarrow> calm (hp c) h' \<Longrightarrow> exclusive (hp(c := h')) a b"
  by (auto simp: exclusive_def wired_def calm_def)

lemma start_press_self_frame:
  "paired_handler (start_press_self h now now' s) = paired_handler h"
  "is_pressed (start_press_self h now now' s)"
  by (simp_all add: start_press_self_def handle_slow_tap_def start_burst_def finish_burst_def
      trigger_action_def Let_def)

lemma start_press_at_self:
  "\<not> is_pressed (hp a) \<Longrightarrow> start_press hp a now now' s a = start_press_self (hp a) now now' s"
  by (auto simp: start_press_def Let_def split: option.splits)

lemma exclusive_start_press:
  assumes "exclusive hp a b"
  shows "exclusive (start_press hp c now now' s) a b"
proof (cases "is_pressed (hp c)")
  case True
  then show ?thesis using assms by (simp add: start_press_def)
next
  case False
  define hp1 where "hp1 = (case paired_handler (hp c) of
                         None \<Rightarrow> hp
                       | Some p \<Rightarrow>
                           if is_pressed (hp p)
                           then hp(p := force_stop (hp p) ''paired handler starting'')
                           else hp)"
  have sp: "start_press hp c now now' s = hp1(c := start_press_self (hp1 c) now now' s)"
    using False by (simp add: start_press_def hp1_def Let_def)
  have ex1: "exclusive hp1 a b"
    unfolding hp1_def using assms
    by (auto split: option.splits intro: exclusive_calm calm_force_stop)
  have other: "c = a \<Longrightarrow> \<not> is_pressed (hp1 b)" "c = b \<Longrightarrow> \<not> is_pressed (hp1 a)"
    unfolding hp1_def using assms
    by (auto simp: exclusive_def wired_def force_stop_def cleanup_state_def split: option.splits)
  show ?thesis
    unfolding sp using ex1 other
    by (auto simp: exclusive_def wired_def start_press_self_frame)
qed

lemma exclusive_step:
  assumes "exclusive hp a b" "step hp ev = Inr hp'"
  shows "exclusive hp' a b"
proof (cases ev)
  case (StartPress c now now' s)
  then show ?thesis using assms by (auto intro: exclusive_start_press)
next
  case (EndPress c now)
  then show ?thesis using assms by (auto intro: exclusive_calm calm_end_press)
next
  case (ForceStop c r)
  then show ?thesis using assms by (auto intro: exclusive_calm calm_force_stop)
next
  case (BurstTimeout c now)
  then show ?thesis using assms by (auto intro: exclusive_calm calm_burst_timer_timeout)
next
  case (TimerTimeout c now sb sa)
  then show ?thesis using assms
    by (auto split: sum.splits intro: exclusive_calm calm_timer_timeout)
next
  case (CheckStale c now)
  then show ?thesis using assms by (auto intro: exclusive_calm calm_check_and_fix)
qed

lemma exclusive_run:
  "exclusive hp a b \<Longrightarrow> run hp evs = Inr hp' \<Longrightarrow> exclusive hp' a b"
proof (induction evs arbitrary: hp)
  case Nil
  then show ?case by simp
next
  case (Cons ev evs)
  then show ?case
    by (auto split: sum.splits dest: exclusive_step)
qed

lemma start_press_stops_pair:
  assumes "wired hp a b" "\<not> is_pressed (hp a)" "is_pressed (hp b)"
  shows "start_press hp a now now' s b = force_stop (hp b) ''paired handler starting''"
    and "is_pressed (start_press hp a now now' s a)"
  using assms
  by (auto simp: start_press_def wired_def Let_def start_press_self_frame)

text \<open>
  C1. Two handlers wired as each other's pair are never both pressed. When
  \<^verbatim>\<open>start_press\<close> is called on one of them while the other is pressed, the other is
  force-stopped (not pressed, both timers stopped) and the caller is marked pressed. So
  from a state in which not both are pressed, after any sequence of \<^verbatim>\<open>start_press\<close>,
  \<^verbatim>\<open>end_press\<close> and \<^verbatim>\<open>force_stop\<close> calls, timer callbacks and stale-state
  checks, on these two or on any other handler of the store, not both are pressed (and the
  wiring is as it was). A sequence that an exception ends has no later state; its states up
  to there are those of a shorter sequence.
\<close>

theorem paired_handlers_never_both_pressed:
  "wired hp a b \<Longrightarrow> \<not> (is_pressed (hp a) \<and> is_pressed (hp b)) \<Longrightarrow>
   (\<forall>evs hp'. run hp evs = Inr hp' \<longrightarrow>
      wired hp' a b \<and> \<not> (is_pressed (hp' a) \<and> is_pressed (hp' b))) \<and>
   (\<not> is_pressed (hp a) \<and> is_pressed (hp b) \<longrightarrow>
      is_pressed (start_press hp a now now' s a) \<and>
      start_press hp a now now' s b = force_stop (hp b) ''paired handler starting'' \<and>
      \<not> is_pressed (start_press hp a now now' s b) \<and>
      timer (start_press hp a now now' s b) = None \<and>
      burst_timer (start_press hp a now now' s b) = None)"
proof -
  assume w: "wired hp a b" and nb: "\<not> (is_pressed (hp a) \<and> is_pressed (hp b))"
  have ex: "exclusive hp a b" using w nb by (simp add: exclusive_def)
  have inv: "wired hp' a b \<and> \<not> (is_pressed (hp' a) \<and> is_pressed (hp' b))"
    if "run hp evs = Inr hp'" for evs hp'
    using exclusive_run [OF ex that] by (simp add: exclusive_def)
  have stop: "is_pressed (start_press hp a now now' s a) \<and>
      start_press hp a now now' s b = force_stop (hp b) ''paired handler starting'' \<and>
      \<not> is_pressed (start_press hp a now now' s b) \<and>
      timer (start_press hp a now now' s b) = None \<and>
      burst_timer (start_press hp a now now' s b) = None"
    if "\<not> is_pressed (hp a)" "is_pressed (hp b)"
    using start_press_stops_pair [OF w that, of now now' s]
    by (simp add: force_stop_def cleanup_state_def)
  show ?thesis using inv stop by blast
qed

text \<open>
  The two handlers of a window, the increase key pressed: a press of the decrease key
  stops the increase handler, and a sequence of presses, timer callbacks, a release and a
  stale check ends with not both pressed.
\<close>

theorem paired_handlers_never_both_pressed_witness:
  "wired increase_pressed_heap 0 1 \<and>
   is_pressed (increase_pressed_heap 0) = False \<and>
   is_pressed (increase_pressed_heap 1) \<and>
   is_pressed (start_press increase_pressed_heap 0 101 101 (Some 50) 0) \<and>
   is_pressed (start_press increase_pressed_heap 0 101 101 (Some 50) 1) = False \<and>
   (\<exists>hp'. run increase_pressed_heap
            [StartPress 0 101 101 (Some 50), BurstTimeout 0 101.015,
             TimerTimeout 0 101.02 (Some 49) (Some 48), StartPress 1 101.1 101.1 (Some 48),
             EndPress 1 101.2, CheckStale 0 102] = Inr hp' \<and>
          \<not> (is_pressed (hp' 0) \<and> is_pressed (hp' 1)))"
proof -
  have f: "wired increase_pressed_heap 0 1" "\<not> is_pressed (increase_pressed_heap 0)"
    "is_pressed (increase_pressed_heap 1)"
    by (simp_all add: increase_pressed_heap_def wired_def example_heaps handler_ops)
  have nb: "\<not> (is_pressed (increase_pressed_heap 0) \<and> is_pressed (increase_pressed_heap 1))"
    using f(2) by simp
  have r: "\<exists>hp'. run increase_pressed_heap
            [StartPress 0 101 101 (Some 50), BurstTimeout 0 101.015,
             TimerTimeout 0 101.02 (Some 49) (Some 48), StartPress 1 101.1 101.1 (Some 48),
             EndPress 1 101.2, CheckStale 0 102] = Inr hp'"
    by (simp add: increase_pressed_heap_def example_heaps handler_ops timer_timeout_def
        check_and_fix_stale_state_def is_stale_state_def)
  show ?thesis
    using f r
      paired_handlers_never_both_pressed [OF f(1) nb, of 101 101 "Some 50"]
    by blast
qed

subsection \<open>Bursts\<close>

lemma released_heap_Suc_0:
  "released_heap (Suc 0) =
     end_press (start_press_self (paired_heap (Suc 0)) 99.9 99.9 (Some 50)) 99.95"
proof -
  have idle: "\<not> is_pressed (paired_heap 1)"
    by (simp add: example_heaps)
  have sp: "start_press paired_heap 1 99.9 99.9 (Some 50) 1 =
            start_press_self (paired_heap 1) 99.9 99.9 (Some 50)"
    using idle by (rule start_press_at_self [of paired_heap 1])
  show ?thesis
    unfolding released_heap_def sp by simp
qed

lemma burst_timer_timeout_more:
  assumes "is_pressed h" "burst_timer h = Some ms" "1 < burst_remaining h"
  shows "burst_timer_timeout h t =
           h\<lparr>trigger_count := trigger_count h + 1,
             burst_remaining := burst_remaining h - 1,
             burst_timer := Some (py_int (current_burst_interval h * 1000))\<rparr>"
  using assms
  by (simp add: burst_timer_timeout_def on_burst_timer_def trigger_action_def Let_def)

lemma burst_timer_timeout_last:
  assumes "is_pressed h" "burst_timer h = Some ms" "burst_remaining h = 1"
  shows "burst_timer_timeout h t =
           finish_burst (h\<lparr>burst_timer := None, trigger_count := trigger_count h + 1,
                           burst_remaining := 0\<rparr>) t"
  using assms
  by (simp add: burst_timer_timeout_def on_burst_timer_def trigger_action_def Let_def)

lemma burst_timer_timeouts_idle:
  "burst_timer h = None \<Longrightarrow> burst_timer_timeouts h ts = h"
  by (induction ts) (simp_all add: burst_timer_timeout_def)

lemma burst_in_flight:
  assumes "is_pressed h" "burst_timer h = Some ms" "int (length ts) < burst_remaining h"
  shows "burst_timer_timeouts h ts =
           h\<lparr>trigger_count := trigger_count h + int (length ts),
             burst_remaining := burst_remaining h - int (length ts),
             burst_timer := Some (if ts = [] then ms else py_int (current_burst_interval h * 1000))\<rparr>"
  using assms
proof (induction ts arbitrary: h ms)
  case Nil
  then show ?case by simp
next
  case (Cons t ts)
  let ?h1 = "h\<lparr>trigger_count := trigger_count h + 1,
             burst_remaining := burst_remaining h - 1,
             burst_timer := Some (py_int (current_burst_interval h * 1000))\<rparr>"
  have more: "1 < burst_remaining h" using Cons.prems(3) by simp
  have step: "burst_timer_timeout h t = ?h1"
    by (rule burst_timer_timeout_more [OF Cons.prems(1,2) more])
  have "burst_timer_timeouts ?h1 ts =
          ?h1\<lparr>trigger_count := trigger_count ?h1 + int (length ts),
             burst_remaining := burst_remaining ?h1 - int (length ts),
             burst_timer := Some (if ts = [] then py_int (current_burst_interval h * 1000)
                                  else py_int (current_burst_interval ?h1 * 1000))\<rparr>"
    by (rule Cons.IH) (use Cons.prems in simp_all)
  then show ?case
    by (simp add: step add.assoc)
qed

lemma burst_complete:
  assumes "is_pressed h" "burst_timer h = Some ms" "0 < burst_remaining h"
    "int (length ts) = burst_remaining h"
  shows "burst_timer_timeouts h ts =
           finish_burst (h\<lparr>burst_timer := None,
                           trigger_count := trigger_count h + int (length ts),
                           burst_remaining := 0\<rparr>) (last ts)"
proof -
  from assms(3,4) have "ts \<noteq> []" by auto
  then obtain us t where ts: "ts = us @ [t]" by (metis rev_exhaust)
  have len: "int (length us) < burst_remaining h" using assms(4) ts by simp
  have app: "burst_timer_timeouts h (us @ [t]) = burst_timer_timeout (burst_timer_timeouts h us) t" for h
    by (induction us arbitrary: h) simp_all
  let ?g = "burst_timer_timeouts h us"
  have g: "?g = h\<lparr>trigger_count := trigger_count h + int (length us),
             burst_remaining := burst_remaining h - int (length us),
             burst_timer := Some (if us = [] then ms else py_int (current_burst_interval h * 1000))\<rparr>"
    by (rule burst_in_flight [OF assms(1,2) len])
  have "burst_timer_timeout ?g t =
           finish_burst (?g\<lparr>burst_timer := None, trigger_count := trigger_count ?g + 1,
                           burst_remaining := 0\<rparr>) t"
    by (rule burst_timer_timeout_last [where ms = "if us = [] then ms else py_int (current_burst_interval h * 1000)"])
       (use assms ts in \<open>simp_all add: g\<close>)
  then show ?thesis
    by (simp add: ts app g ac_simps)
qed

lemma start_burst_more:
  "1 < c \<Longrightarrow> start_burst h c i now =
     h\<lparr>burst_remaining := c - 1, burst_active := True, current_burst_interval := i,
       trigger_count := trigger_count h + 1, burst_timer := Some (py_int (i * 1000))\<rparr>"
  by (simp add: start_burst_def trigger_action_def Let_def)

lemma start_burst_single:
  "c \<le> 1 \<Longrightarrow> start_burst h c i now =
     finish_burst (h\<lparr>burst_remaining := c - 1, burst_active := True, current_burst_interval := i,
       trigger_count := trigger_count h + 1\<rparr>) now"
  by (simp add: start_burst_def trigger_action_def Let_def finish_burst_def)

lemma burst_timer_timeouts_append:
  "burst_timer_timeouts h (us @ vs) = burst_timer_timeouts (burst_timer_timeouts h us) vs"
  by (induction us arbitrary: h) simp_all

lemma finish_burst_fields:
  "trigger_count (finish_burst h now) = trigger_count h"
  "\<not> burst_active (finish_burst h now)"
  "burst_timer (finish_burst h now) = burst_timer h"
  "burst_remaining (finish_burst h now) = 0"
  "is_pressed (finish_burst h now) = is_pressed h"
  "unchanged_trigger_count (finish_burst h now) = unchanged_trigger_count h"
  by (simp_all add: finish_burst_def Let_def)

lemma start_burst_in_flight:
  assumes "is_pressed h" "int (length ts) + 1 < c"
  shows "burst_timer_timeouts (start_burst h c i now) ts =
           h\<lparr>burst_remaining := c - 1 - int (length ts), burst_active := True,
             current_burst_interval := i,
             trigger_count := trigger_count h + 1 + int (length ts),
             burst_timer := Some (py_int (i * 1000))\<rparr>"
proof -
  have c: "1 < c" using assms(2) by simp
  let ?g = "h\<lparr>burst_remaining := c - 1, burst_active := True, current_burst_interval := i,
       trigger_count := trigger_count h + 1, burst_timer := Some (py_int (i * 1000))\<rparr>"
  have "burst_timer_timeouts ?g ts =
           ?g\<lparr>trigger_count := trigger_count ?g + int (length ts),
             burst_remaining := burst_remaining ?g - int (length ts),
             burst_timer := Some (if ts = [] then py_int (i * 1000)
                                  else py_int (current_burst_interval ?g * 1000))\<rparr>"
    by (rule burst_in_flight) (use assms in simp_all)
  then show ?thesis
    by (simp add: start_burst_more [OF c])
qed

lemma start_burst_complete:
  assumes "is_pressed h" "c \<le> int (length ts) + 1" "burst_timer h = None"
  shows "trigger_count (burst_timer_timeouts (start_burst h c i now) ts) = trigger_count h + max 1 c"
    and "\<not> burst_active (burst_timer_timeouts (start_burst h c i now) ts)"
    and "burst_timer (burst_timer_timeouts (start_burst h c i now) ts) = None"
    and "burst_remaining (burst_timer_timeouts (start_burst h c i now) ts) = 0"
    and "is_pressed (burst_timer_timeouts (start_burst h c i now) ts)"
    and "unchanged_trigger_count (burst_timer_timeouts (start_burst h c i now) ts) =
           unchanged_trigger_count h"
proof -
  let ?R = "burst_timer_timeouts (start_burst h c i now) ts"
  have "trigger_count ?R = trigger_count h + max 1 c \<and> \<not> burst_active ?R \<and>
        burst_timer ?R = None \<and> burst_remaining ?R = 0 \<and> is_pressed ?R \<and>
        unchanged_trigger_count ?R = unchanged_trigger_count h"
  proof (cases "c \<le> 1")
    case True
    let ?f = "finish_burst (h\<lparr>burst_remaining := c - 1, burst_active := True,
       current_burst_interval := i, trigger_count := trigger_count h + 1\<rparr>) now"
    have sb: "start_burst h c i now = ?f" by (rule start_burst_single [OF True])
    have idle: "burst_timer ?f = None"
      using assms(3) by (simp add: finish_burst_fields)
    have R: "?R = ?f"
      unfolding sb by (rule burst_timer_timeouts_idle [OF idle])
    show ?thesis
      unfolding R using True assms(1,3) by (simp add: finish_burst_fields)
  next
    case False
    then have c: "1 < c" by simp
    define us where "us = take (nat (c - 1)) ts"
    define vs where "vs = drop (nat (c - 1)) ts"
    have ts: "ts = us @ vs" by (simp add: us_def vs_def)
    have len: "int (length us) = c - 1" using assms(2) c by (auto simp: us_def min_def)
    let ?g = "h\<lparr>burst_remaining := c - 1, burst_active := True, current_burst_interval := i,
       trigger_count := trigger_count h + 1, burst_timer := Some (py_int (i * 1000))\<rparr>"
    have fin: "burst_timer_timeouts ?g us =
           finish_burst (?g\<lparr>burst_timer := None,
                           trigger_count := trigger_count ?g + int (length us),
                           burst_remaining := 0\<rparr>) (last us)"
      by (rule burst_complete) (use assms c len in simp_all)
    have none: "burst_timer (burst_timer_timeouts ?g us) = None"
      unfolding fin by (simp add: finish_burst_fields)
    have R: "?R = burst_timer_timeouts ?g us"
      by (simp add: ts burst_timer_timeouts_append start_burst_more [OF c]
          burst_timer_timeouts_idle [OF none])
    show ?thesis
      unfolding R fin using c len assms(1) by (simp add: finish_burst_fields)
  qed
  then show "trigger_count ?R = trigger_count h + max 1 c" "\<not> burst_active ?R"
    "burst_timer ?R = None" "burst_remaining ?R = 0" "is_pressed ?R"
    "unchanged_trigger_count ?R = unchanged_trigger_count h"
    by simp_all
qed

lemma start_burst_frame:
  "HOLD_ENABLED (start_burst h c i now) = HOLD_ENABLED h"
  "timer_interval (start_burst h c i now) = timer_interval h"
  "trigger_count (start_burst h c i now) = trigger_count h + 1"
  "is_pressed (start_burst h c i now) = is_pressed h"
  by (simp_all add: start_burst_def trigger_action_def finish_burst_def Let_def)

lemma if_fold: "(if T then f M else f False) = f (T \<and> M)"
  by (cases T) simp_all

lemma handle_slow_tap_eq:
  "handle_slow_tap h u now =
     start_burst (h\<lparr>current_mode := SLOW_TAP\<rparr>)
       (if u then SLOW_BURST_COUNT h * MULTIPLIER_BURST_COUNT h else SLOW_BURST_COUNT h)
       (if u then MULTIPLIER_BURST_INTERVAL h else SLOW_BURST_INTERVAL h) now"
  by (simp add: handle_slow_tap_def Let_def)

lemma start_press_self_eq:
  assumes u: "u \<longleftrightarrow> SLOW_TAP_ENABLED h \<and>
                     (last_release_time h = 0 \<or> now - last_release_time h < SLOW_TAP_THRESHOLD h) \<and>
                     MULTIPLIER_ENABLED h \<and> 0 < last_release_time h \<and>
                     now - last_release_time h < MULTIPLIER_THRESHOLD h"
    and hb: "hb = start_burst
                 (h\<lparr>is_pressed := True, press_start_time := now, last_trigger_time := now,
                    trigger_count := 0, last_brush_size := s, unchanged_trigger_count := 0,
                    last_timer_activity := now, current_mode := SLOW_TAP\<rparr>)
                 (if u then SLOW_BURST_COUNT h * MULTIPLIER_BURST_COUNT h else SLOW_BURST_COUNT h)
                 (if u then MULTIPLIER_BURST_INTERVAL h else SLOW_BURST_INTERVAL h)
                 now'"
  shows "start_press_self h now now' s =
     (if HOLD_ENABLED h \<and> \<not> burst_active hb
         then hb\<lparr>timer := Some (timer_interval h)\<rparr> else hb)"
proof -
  let ?p = "h\<lparr>is_pressed := True, press_start_time := now, last_trigger_time := now,
                 trigger_count := 0, last_brush_size := s,
                 unchanged_trigger_count := 0, last_timer_activity := now\<rparr>"
  let ?T = "SLOW_TAP_ENABLED h \<and>
                     (last_release_time h = 0 \<or> now - last_release_time h < SLOW_TAP_THRESHOLD h)"
  let ?M = "MULTIPLIER_ENABLED h \<and> 0 < last_release_time h \<and>
                     now - last_release_time h < MULTIPLIER_THRESHOLD h"
  have fold: "(if ?T then handle_slow_tap ?p ?M now' else handle_slow_tap ?p False now') =
         handle_slow_tap ?p u now'"
    unfolding u using if_fold [of ?T "\<lambda>x. handle_slow_tap ?p x now'" ?M]
    by (simp only: conj_assoc)
  have sp: "start_press_self h now now' s =
          (let h2 = (if ?T then handle_slow_tap ?p ?M now' else handle_slow_tap ?p False now')
           in if HOLD_ENABLED h2 \<and> \<not> burst_active h2
              then h2\<lparr>timer := Some (timer_interval h2)\<rparr> else h2)"
    unfolding start_press_self_def Let_def by (simp split del: if_split cong: if_cong)
  have hs: "handle_slow_tap ?p u now' = hb"
    unfolding hb handle_slow_tap_eq by (simp split del: if_split cong: if_cong)
  show ?thesis
    unfolding sp fold hs Let_def
    by (simp add: hb start_burst_frame split del: if_split cong: if_cong)
qed

lemma trigger_count_start_press_self:
  "trigger_count (start_press_self h now now' s) = 1"
proof -
  define u where "u \<longleftrightarrow> SLOW_TAP_ENABLED h \<and>
                     (last_release_time h = 0 \<or> now - last_release_time h < SLOW_TAP_THRESHOLD h) \<and>
                     MULTIPLIER_ENABLED h \<and> 0 < last_release_time h \<and>
                     now - last_release_time h < MULTIPLIER_THRESHOLD h"
  define hb where "hb = start_burst
                 (h\<lparr>is_pressed := True, press_start_time := now, last_trigger_time := now,
                    trigger_count := 0, last_brush_size := s, unchanged_trigger_count := 0,
                    last_timer_activity := now, current_mode := SLOW_TAP\<rparr>)
                 (if u then SLOW_BURST_COUNT h * MULTIPLIER_BURST_COUNT h else SLOW_BURST_COUNT h)
                 (if u then MULTIPLIER_BURST_INTERVAL h else SLOW_BURST_INTERVAL h)
                 now'"
  have one: "trigger_count hb = 1"
    unfolding hb_def by (simp only: start_burst_frame) simp
  show ?thesis
    unfolding start_press_self_eq [OF u_def hb_def] using one by simp
qed

lemma press_burst:
  assumes u: "u \<longleftrightarrow> SLOW_TAP_ENABLED h \<and>
                     (last_release_time h = 0 \<or> now - last_release_time h < SLOW_TAP_THRESHOLD h) \<and>
                     MULTIPLIER_ENABLED h \<and> 0 < last_release_time h \<and>
                     now - last_release_time h < MULTIPLIER_THRESHOLD h"
    and c: "c = (if u then SLOW_BURST_COUNT h * MULTIPLIER_BURST_COUNT h else SLOW_BURST_COUNT h)"
    and i: "i = (if u then MULTIPLIER_BURST_INTERVAL h else SLOW_BURST_INTERVAL h)"
    and idle: "burst_timer h = None"
    and h1: "h1 = start_press_self h now now' s"
  shows "current_burst_interval h1 = i"
    and "int (length ts) + 1 < c \<Longrightarrow>
           trigger_count (burst_timer_timeouts h1 ts) = 1 + int (length ts) \<and>
           burst_active (burst_timer_timeouts h1 ts) \<and>
           burst_timer (burst_timer_timeouts h1 ts) = Some (py_int (i * 1000))"
    and "c \<le> int (length ts) + 1 \<Longrightarrow>
           trigger_count (burst_timer_timeouts h1 ts) = max 1 c \<and>
           \<not> burst_active (burst_timer_timeouts h1 ts) \<and>
           burst_timer (burst_timer_timeouts h1 ts) = None"
proof -
  define p where "p = h\<lparr>is_pressed := True, press_start_time := now, last_trigger_time := now,
                    trigger_count := 0, last_brush_size := s, unchanged_trigger_count := 0,
                    last_timer_activity := now, current_mode := SLOW_TAP\<rparr>"
  define hb where "hb = start_burst p c i now'"
  have hb': "hb = start_burst
                 (h\<lparr>is_pressed := True, press_start_time := now, last_trigger_time := now,
                    trigger_count := 0, last_brush_size := s, unchanged_trigger_count := 0,
                    last_timer_activity := now, current_mode := SLOW_TAP\<rparr>)
                 (if u then SLOW_BURST_COUNT h * MULTIPLIER_BURST_COUNT h else SLOW_BURST_COUNT h)
                 (if u then MULTIPLIER_BURST_INTERVAL h else SLOW_BURST_INTERVAL h)
                 now'"
    unfolding hb_def p_def c i ..
  have eq: "h1 = (if HOLD_ENABLED h \<and> \<not> burst_active hb
                  then hb\<lparr>timer := Some (timer_interval h)\<rparr> else hb)"
    unfolding h1 by (rule start_press_self_eq [OF u hb'])
  have p: "is_pressed p" "burst_timer p = None" "trigger_count p = 0"
    using idle by (simp_all add: p_def)
  have "current_burst_interval hb = i"
    unfolding hb_def by (simp add: start_burst_def trigger_action_def finish_burst_def Let_def)
  then show "current_burst_interval h1 = i"
    unfolding eq by simp
  {
    assume len: "int (length ts) + 1 < c"
    then have c1: "1 < c" by simp
    have act: "burst_active hb" unfolding hb_def by (simp add: start_burst_more [OF c1])
    have "h1 = hb" unfolding eq using act by simp
    then show "trigger_count (burst_timer_timeouts h1 ts) = 1 + int (length ts) \<and>
           burst_active (burst_timer_timeouts h1 ts) \<and>
           burst_timer (burst_timer_timeouts h1 ts) = Some (py_int (i * 1000))"
      unfolding hb_def by (simp add: start_burst_in_flight [OF p(1) len] p(3))
  }
  {
    assume len: "c \<le> int (length ts) + 1"
    note fin = start_burst_complete [OF p(1) len p(2), of i now', folded hb_def]
    show "trigger_count (burst_timer_timeouts h1 ts) = max 1 c \<and>
           \<not> burst_active (burst_timer_timeouts h1 ts) \<and>
           burst_timer (burst_timer_timeouts h1 ts) = None"
    proof (cases "HOLD_ENABLED h \<and> \<not> burst_active hb")
      case False
      then have "h1 = hb" unfolding eq by auto
      then show ?thesis using fin p(3) by simp
    next
      case True
      have c1: "c \<le> 1"
      proof (rule ccontr)
        assume "\<not> c \<le> 1"
        then have "1 < c" by simp
        then have "burst_active hb" unfolding hb_def by (simp add: start_burst_more)
        with True show False by simp
      qed
      have h1': "h1 = hb\<lparr>timer := Some (timer_interval h)\<rparr>" unfolding eq using True by simp
      have bt: "burst_timer hb = None"
        unfolding hb_def start_burst_single [OF c1] using p(2) by (simp add: finish_burst_fields)
      have a: "burst_timer_timeouts h1 ts = h1"
        by (rule burst_timer_timeouts_idle) (simp add: h1' bt)
      have b: "burst_timer_timeouts hb ts = hb"
        by (rule burst_timer_timeouts_idle [OF bt])
      show ?thesis using fin p(3) unfolding a b by (simp add: h1')
    qed
  }
qed

text \<open>
  C7. A press from idle (not pressed, no burst step pending), with burst counts of at least
  one as the settings panel ensures. If tap mode is enabled, a release is recorded, the
  time since it is below the tap threshold and below the multiplier threshold, and
  multiplier mode is enabled, then the burst fires \<open>SLOW_BURST_COUNT * MULTIPLIER_BURST_COUNT\<close>
  triggers in all, the first at once and each further one by the burst timer, which is
  armed with \<open>MULTIPLIER_BURST_INTERVAL\<close> (in milliseconds) after every step but the
  last. If the tap condition holds and the multiplier condition does not, the burst fires
  \<open>SLOW_BURST_COUNT\<close> triggers and the timer is armed with \<open>SLOW_BURST_INTERVAL\<close>.
  The key stays down while the burst timer fires at the times \<open>ts\<close>.
\<close>

theorem multiplier_burst_count_and_spacing:
  "\<not> is_pressed (hp a) \<Longrightarrow> burst_timer (hp a) = None \<Longrightarrow>
   1 \<le> SLOW_BURST_COUNT (hp a) \<Longrightarrow> 1 \<le> MULTIPLIER_BURST_COUNT (hp a) \<Longrightarrow>
   h1 = start_press hp a now now' s a \<Longrightarrow>
   (SLOW_TAP_ENABLED (hp a) \<and> 0 < last_release_time (hp a) \<and>
    now - last_release_time (hp a) < SLOW_TAP_THRESHOLD (hp a) \<and>
    MULTIPLIER_ENABLED (hp a) \<and>
    now - last_release_time (hp a) < MULTIPLIER_THRESHOLD (hp a) \<longrightarrow>
      current_burst_interval h1 = MULTIPLIER_BURST_INTERVAL (hp a) \<and>
      (\<forall>ts. int (length ts) + 1 < SLOW_BURST_COUNT (hp a) * MULTIPLIER_BURST_COUNT (hp a) \<longrightarrow>
         trigger_count (burst_timer_timeouts h1 ts) = 1 + int (length ts) \<and>
         burst_active (burst_timer_timeouts h1 ts) \<and>
         burst_timer (burst_timer_timeouts h1 ts) =
           Some (py_int (MULTIPLIER_BURST_INTERVAL (hp a) * 1000))) \<and>
      (\<forall>ts. SLOW_BURST_COUNT (hp a) * MULTIPLIER_BURST_COUNT (hp a) \<le> int (length ts) + 1 \<longrightarrow>
         trigger_count (burst_timer_timeouts h1 ts) =
           SLOW_BURST_COUNT (hp a) * MULTIPLIER_BURST_COUNT (hp a) \<and>
         \<not> burst_active (burst_timer_timeouts h1 ts) \<and>
         burst_timer (burst_timer_timeouts h1 ts) = None)) \<and>
   (SLOW_TAP_ENABLED (hp a) \<and>
    (last_release_time (hp a) = 0 \<or>
     now - last_release_time (hp a) < SLOW_TAP_THRESHOLD (hp a)) \<and>
    \<not> (MULTIPLIER_ENABLED (hp a) \<and> 0 < last_release_time (hp a) \<and>
       now - last_release_time (hp a) < MULTIPLIER_THRESHOLD (hp a)) \<longrightarrow>
      current_burst_interval h1 = SLOW_BURST_INTERVAL (hp a) \<and>
      (\<forall>ts. int (length ts) + 1 < SLOW_BURST_COUNT (hp a) \<longrightarrow>
         trigger_count (burst_timer_timeouts h1 ts) = 1 + int (length ts) \<and>
         burst_active (burst_timer_timeouts h1 ts) \<and>
         burst_timer (burst_timer_timeouts h1 ts) =
           Some (py_int (SLOW_BURST_INTERVAL (hp a) * 1000))) \<and>
      (\<forall>ts. SLOW_BURST_COUNT (hp a) \<le> int (length ts) + 1 \<longrightarrow>
         trigger_count (burst_timer_timeouts h1 ts) = SLOW_BURST_COUNT (hp a) \<and>
         \<not> burst_active (burst_timer_timeouts h1 ts) \<and>
         burst_timer (burst_timer_timeouts h1 ts) = None))"
proof -
  assume idle: "\<not> is_pressed (hp a)" and bt: "burst_timer (hp a) = None"
    and sc: "1 \<le> SLOW_BURST_COUNT (hp a)" and mc: "1 \<le> MULTIPLIER_BURST_COUNT (hp a)"
    and h1: "h1 = start_press hp a now now' s a"
  define h where "h = hp a"
  have h1': "h1 = start_press_self h now now' s"
    unfolding h1 h_def using idle by (rule start_press_at_self [of hp a])
  have prod: "1 \<le> SLOW_BURST_COUNT h * MULTIPLIER_BURST_COUNT h"
    using sc mc unfolding h_def by (metis mult_mono mult_1 zero_le_one order_trans)
  have sc': "max 1 (SLOW_BURST_COUNT h) = SLOW_BURST_COUNT h"
    and pc': "max 1 (SLOW_BURST_COUNT h * MULTIPLIER_BURST_COUNT h) =
              SLOW_BURST_COUNT h * MULTIPLIER_BURST_COUNT h"
    using sc prod unfolding h_def by simp_all
  have bt': "burst_timer h = None" using bt unfolding h_def .
  have mult: "current_burst_interval h1 = MULTIPLIER_BURST_INTERVAL h \<and>
      (\<forall>ts. int (length ts) + 1 < SLOW_BURST_COUNT h * MULTIPLIER_BURST_COUNT h \<longrightarrow>
         trigger_count (burst_timer_timeouts h1 ts) = 1 + int (length ts) \<and>
         burst_active (burst_timer_timeouts h1 ts) \<and>
         burst_timer (burst_timer_timeouts h1 ts) =
           Some (py_int (MULTIPLIER_BURST_INTERVAL h * 1000))) \<and>
      (\<forall>ts. SLOW_BURST_COUNT h * MULTIPLIER_BURST_COUNT h \<le> int (length ts) + 1 \<longrightarrow>
         trigger_count (burst_timer_timeouts h1 ts) =
           SLOW_BURST_COUNT h * MULTIPLIER_BURST_COUNT h \<and>
         \<not> burst_active (burst_timer_timeouts h1 ts) \<and>
         burst_timer (burst_timer_timeouts h1 ts) = None)"
    if c: "SLOW_TAP_ENABLED h \<and> 0 < last_release_time h \<and>
      now - last_release_time h < SLOW_TAP_THRESHOLD h \<and> MULTIPLIER_ENABLED h \<and>
      now - last_release_time h < MULTIPLIER_THRESHOLD h"
  proof -
    have u: "True \<longleftrightarrow> SLOW_TAP_ENABLED h \<and>
                     (last_release_time h = 0 \<or> now - last_release_time h < SLOW_TAP_THRESHOLD h) \<and>
                     MULTIPLIER_ENABLED h \<and> 0 < last_release_time h \<and>
                     now - last_release_time h < MULTIPLIER_THRESHOLD h"
      using c by blast
    have cc: "SLOW_BURST_COUNT h * MULTIPLIER_BURST_COUNT h =
              (if True then SLOW_BURST_COUNT h * MULTIPLIER_BURST_COUNT h else SLOW_BURST_COUNT h)"
      and ii: "MULTIPLIER_BURST_INTERVAL h =
              (if True then MULTIPLIER_BURST_INTERVAL h else SLOW_BURST_INTERVAL h)"
      by simp_all
    note pb = press_burst [OF u cc ii bt' h1', unfolded pc']
    show ?thesis using pb by blast
  qed
  have plain: "current_burst_interval h1 = SLOW_BURST_INTERVAL h \<and>
      (\<forall>ts. int (length ts) + 1 < SLOW_BURST_COUNT h \<longrightarrow>
         trigger_count (burst_timer_timeouts h1 ts) = 1 + int (length ts) \<and>
         burst_active (burst_timer_timeouts h1 ts) \<and>
         burst_timer (burst_timer_timeouts h1 ts) =
           Some (py_int (SLOW_BURST_INTERVAL h * 1000))) \<and>
      (\<forall>ts. SLOW_BURST_COUNT h \<le> int (length ts) + 1 \<longrightarrow>
         trigger_count (burst_timer_timeouts h1 ts) = SLOW_BURST_COUNT h \<and>
         \<not> burst_active (burst_timer_timeouts h1 ts) \<and>
         burst_timer (burst_timer_timeouts h1 ts) = None)"
    if c: "\<not> (MULTIPLIER_ENABLED h \<and> 0 < last_release_time h \<and>
       now - last_release_time h < MULTIPLIER_THRESHOLD h)"
  proof -
    have u: "False \<longleftrightarrow> SLOW_TAP_ENABLED h \<and>
                     (last_release_time h = 0 \<or> now - last_release_time h < SLOW_TAP_THRESHOLD h) \<and>
                     MULTIPLIER_ENABLED h \<and> 0 < last_release_time h \<and>
                     now - last_release_time h < MULTIPLIER_THRESHOLD h"
      using c by blast
    have cc: "SLOW_BURST_COUNT h =
              (if False then SLOW_BURST_COUNT h * MULTIPLIER_BURST_COUNT h else SLOW_BURST_COUNT h)"
      and ii: "SLOW_BURST_INTERVAL h =
              (if False then MULTIPLIER_BURST_INTERVAL h else SLOW_BURST_INTERVAL h)"
      by simp_all
    note pb = press_burst [OF u cc ii bt' h1', unfolded sc']
    show ?thesis using pb by blast
  qed
  show ?thesis
    using mult plain unfolding h_def by blast
qed

text \<open>
  The increase key, released at 99.95 and pressed again at 100 with the default settings
  (thresholds 0.1 and 0.15, burst count 3, multiplier 3, multiplier interval 0.001): nine
  triggers, the timer armed with 1 ms. The first press of a new handler is a plain burst
  of three, the timer armed with 15 ms.
\<close>

theorem multiplier_burst_count_and_spacing_witness:
  "is_pressed (released_heap 1) = False \<and> burst_timer (released_heap 1) = None \<and>
   last_release_time (released_heap 1) = 99.95 \<and>
   current_burst_interval (start_press released_heap 1 100 100 (Some 50) 1) = 0.001 \<and>
   burst_timer (burst_timer_timeouts (start_press released_heap 1 100 100 (Some 50) 1)
      [100.001]) = Some 1 \<and>
   trigger_count (burst_timer_timeouts (start_press released_heap 1 100 100 (Some 50) 1)
      [100.001, 100.002, 100.003, 100.004, 100.005, 100.006, 100.007, 100.008]) = 9 \<and>
   burst_timer (burst_timer_timeouts (start_press released_heap 1 100 100 (Some 50) 1)
      [100.001, 100.002, 100.003, 100.004, 100.005, 100.006, 100.007, 100.008]) = None \<and>
   last_release_time (paired_heap 1) = 0 \<and>
   burst_timer (burst_timer_timeouts (start_press paired_heap 1 100 100 (Some 50) 1)
      [100.015]) = Some 15 \<and>
   trigger_count (burst_timer_timeouts (start_press paired_heap 1 100 100 (Some 50) 1)
      [100.015, 100.030]) = 3"
proof -
  define h where "h = released_heap 1"
  define g where "g = paired_heap 1"
  have "\<not> is_pressed h \<and> burst_timer h = None \<and> SLOW_BURST_COUNT h = 3 \<and>
    MULTIPLIER_BURST_COUNT h = 3 \<and> last_release_time h = 99.95 \<and> SLOW_TAP_ENABLED h \<and>
    MULTIPLIER_ENABLED h \<and> SLOW_TAP_THRESHOLD h = 0.1 \<and> MULTIPLIER_THRESHOLD h = 0.15 \<and>
    MULTIPLIER_BURST_INTERVAL h = 0.001"
    unfolding h_def by (simp add: released_heap_Suc_0 example_heaps handler_ops)
  then have f: "\<not> is_pressed h" "burst_timer h = None" "SLOW_BURST_COUNT h = 3"
    "MULTIPLIER_BURST_COUNT h = 3" "last_release_time h = 99.95" "SLOW_TAP_ENABLED h"
    "MULTIPLIER_ENABLED h" "SLOW_TAP_THRESHOLD h = 0.1" "MULTIPLIER_THRESHOLD h = 0.15"
    "MULTIPLIER_BURST_INTERVAL h = 0.001"
    by simp_all
  have e: "\<not> is_pressed g" "burst_timer g = None" "SLOW_BURST_COUNT g = 3"
    "MULTIPLIER_BURST_COUNT g = 3" "last_release_time g = 0" "SLOW_TAP_ENABLED g"
    "SLOW_BURST_INTERVAL g = 0.015"
    unfolding g_def by (simp_all add: example_heaps)
  have c: "1 \<le> SLOW_BURST_COUNT h" "1 \<le> MULTIPLIER_BURST_COUNT h"
    "1 \<le> SLOW_BURST_COUNT g" "1 \<le> MULTIPLIER_BURST_COUNT g"
    by (simp_all add: f e)
  note th = multiplier_burst_count_and_spacing
      [of released_heap 1 _ 100 100 "Some 50", folded h_def, OF f(1,2) c(1,2) refl]
  have cond: "SLOW_TAP_ENABLED h \<and> 0 < last_release_time h \<and>
    100 - last_release_time h < SLOW_TAP_THRESHOLD h \<and> MULTIPLIER_ENABLED h \<and>
    100 - last_release_time h < MULTIPLIER_THRESHOLD h"
    by (simp add: f)
  note m = th [THEN conjunct1, rule_format, OF cond]
  note m1 = m [THEN conjunct1]
  note m2 = m [THEN conjunct2, THEN conjunct1, rule_format]
  note m3 = m [THEN conjunct2, THEN conjunct2, rule_format]
  note tg = multiplier_burst_count_and_spacing
      [of paired_heap 1 _ 100 100 "Some 50", folded g_def, OF e(1,2) c(3,4) refl]
  have cond': "SLOW_TAP_ENABLED g \<and>
    (last_release_time g = 0 \<or> 100 - last_release_time g < SLOW_TAP_THRESHOLD g) \<and>
    \<not> (MULTIPLIER_ENABLED g \<and> 0 < last_release_time g \<and>
       100 - last_release_time g < MULTIPLIER_THRESHOLD g)"
    by (simp add: e)
  note p = tg [THEN conjunct2, rule_format, OF cond']
  note p2 = p [THEN conjunct2, THEN conjunct1, rule_format]
  note p3 = p [THEN conjunct2, THEN conjunct2, rule_format]
  have a1: "current_burst_interval (start_press released_heap 1 100 100 (Some 50) 1) = 0.001"
    using m1 by (simp add: f)
  have a2: "burst_timer (burst_timer_timeouts (start_press released_heap 1 100 100 (Some 50) 1)
      [100.001]) = Some 1"
    using m2 [of "[100.001]"] by (simp add: f py_int_def)
  have a3: "trigger_count (burst_timer_timeouts (start_press released_heap 1 100 100 (Some 50) 1)
      [100.001, 100.002, 100.003, 100.004, 100.005, 100.006, 100.007, 100.008]) = 9 \<and>
    burst_timer (burst_timer_timeouts (start_press released_heap 1 100 100 (Some 50) 1)
      [100.001, 100.002, 100.003, 100.004, 100.005, 100.006, 100.007, 100.008]) = None"
    using m3 [of "[100.001, 100.002, 100.003, 100.004, 100.005, 100.006, 100.007, 100.008]"]
    by (simp add: f)
  have b2: "burst_timer (burst_timer_timeouts (start_press paired_heap 1 100 100 (Some 50) 1)
      [100.015]) = Some 15"
    using p2 [of "[100.015]"] by (simp add: e py_int_def)
  have b3: "trigger_count (burst_timer_timeouts (start_press paired_heap 1 100 100 (Some 50) 1)
      [100.015, 100.030]) = 3"
    using p3 [of "[100.015, 100.030]"] by (simp add: e)
  show ?thesis
    using f(1,2,5) e(5) a1 a2 a3 b2 b3 unfolding h_def g_def by simp
qed

text \<open>
  With tap mode enabled, hold mode disabled, burst count 3 and burst interval 0.015, a
  press at 100 and a release at 100.001 fire one trigger, not three: the release stops the
  burst timer that the press armed with 15 ms, so no burst step is pending, and the burst
  slot itself fires nothing when the key is no longer pressed.
\<close>

theorem burst_after_release_counterexample:
  "SLOW_TAP_ENABLED (tap_only_heap 1) \<and> HOLD_ENABLED (tap_only_heap 1) = False \<and>
   SLOW_BURST_COUNT (tap_only_heap 1) = 3 \<and> SLOW_BURST_INTERVAL (tap_only_heap 1) = 0.015 \<and>
   is_pressed (tap_only_heap 1) = False \<and>
   burst_timer (start_press tap_only_heap 1 100 100 (Some 50) 1) = Some 15 \<and>
   burst_remaining (start_press tap_only_heap 1 100 100 (Some 50) 1) = 2 \<and>
   trigger_count (end_press (start_press tap_only_heap 1 100 100 (Some 50) 1) 100.001) = 1 \<and>
   burst_timer (end_press (start_press tap_only_heap 1 100 100 (Some 50) 1) 100.001) = None \<and>
   trigger_count
     (burst_timer_timeouts (end_press (start_press tap_only_heap 1 100 100 (Some 50) 1) 100.001)
        [100.015, 100.030]) \<noteq> 3 \<and>
   trigger_count
     (on_burst_timer (end_press (start_press tap_only_heap 1 100 100 (Some 50) 1) 100.001)
        100.015) = 1 \<and>
   trigger_count
     (on_burst_timer
        ((start_press tap_only_heap 1 100 100 (Some 50) 1)\<lparr>is_pressed := False\<rparr>) 100.015) = 1"
proof -
  have idle: "\<not> is_pressed (tap_only_heap 1)"
    by (simp add: example_heaps)
  have sp: "start_press tap_only_heap 1 100 100 (Some 50) 1 =
            start_press_self (tap_only_heap 1) 100 100 (Some 50)"
    using idle by (rule start_press_at_self [of tap_only_heap 1])
  show ?thesis
    unfolding sp by (simp add: example_heaps handler_ops)
qed

lemma end_press_after_press:
  "is_pressed g \<Longrightarrow>
   trigger_count (end_press g t) = trigger_count g \<and> burst_timer (end_press g t) = None \<and>
   timer (end_press g t) = None \<and> burst_remaining (end_press g t) = 0 \<and>
   \<not> burst_active (end_press g t) \<and> \<not> is_pressed (end_press g t) \<and>
   last_release_time (end_press g t) = t"
  by (simp add: end_press_def cleanup_state_def)

lemma on_burst_timer_released:
  "\<not> is_pressed g \<Longrightarrow>
   trigger_count (on_burst_timer g u) = trigger_count g \<and>
   \<not> burst_active (on_burst_timer g u) \<and>
   burst_remaining (on_burst_timer g u) = 0 \<and>
   burst_timer (on_burst_timer g u) = burst_timer g \<and>
   timer (on_burst_timer g u) = timer g"
  by (simp add: on_burst_timer_def finish_burst_def Let_def)

text \<open>
  C2 (as the code has it). A press from idle followed by a release fires exactly one
  trigger in all, whatever the settings: the first burst step fires inside
  \<^verbatim>\<open>start_press\<close>, and \<^verbatim>\<open>end_press\<close> stops both timers and clears the remaining
  count, so that no timer callback comes after the release. A burst slot that runs while
  the key is not pressed fires nothing and finishes the burst without arming the timer.
\<close>

theorem release_cancels_burst:
  "\<not> is_pressed (hp a) \<Longrightarrow>
   h2 = end_press (start_press hp a now now' s a) t \<Longrightarrow>
   trigger_count (start_press hp a now now' s a) = 1 \<and>
   trigger_count h2 = 1 \<and> \<not> is_pressed h2 \<and>
   burst_timer h2 = None \<and> timer h2 = None \<and> burst_remaining h2 = 0 \<and> \<not> burst_active h2 \<and>
   (\<forall>ts. burst_timer_timeouts h2 ts = h2) \<and>
   (\<forall>u sb sa. timer_timeout h2 u sb sa = Inr h2) \<and>
   (\<forall>g u. \<not> is_pressed g \<longrightarrow>
      trigger_count (on_burst_timer g u) = trigger_count g \<and>
      \<not> burst_active (on_burst_timer g u) \<and>
      burst_remaining (on_burst_timer g u) = 0 \<and>
      burst_timer (on_burst_timer g u) = burst_timer g)"
proof -
  assume idle: "\<not> is_pressed (hp a)"
    and h2: "h2 = end_press (start_press hp a now now' s a) t"
  define h1 where "h1 = start_press_self (hp a) now now' s"
  have sp: "start_press hp a now now' s a = h1"
    unfolding h1_def using idle by (rule start_press_at_self [of hp a])
  have pressed: "is_pressed h1" and one: "trigger_count h1 = 1"
    unfolding h1_def by (simp_all add: start_press_self_frame trigger_count_start_press_self)
  note ep = end_press_after_press [OF pressed, of t, folded sp, folded h2]
  have idle2: "burst_timer_timeouts h2 ts = h2" for ts
    by (rule burst_timer_timeouts_idle) (simp add: ep)
  have poll: "timer_timeout h2 u sb sa = Inr h2" for u sb sa
    by (simp add: timer_timeout_def ep)
  show ?thesis
    using ep one idle2 poll on_burst_timer_released unfolding sp by simp
qed

text \<open>The press and release of the counterexample, and the burst timer left alone after it.\<close>

theorem release_cancels_burst_witness:
  "is_pressed (tap_only_heap 1) = False \<and>
   trigger_count (start_press tap_only_heap 1 100 100 (Some 50) 1) = 1 \<and>
   trigger_count (end_press (start_press tap_only_heap 1 100 100 (Some 50) 1) 100.001) = 1 \<and>
   burst_timer (end_press (start_press tap_only_heap 1 100 100 (Some 50) 1) 100.001) = None \<and>
   trigger_count
     (burst_timer_timeouts (end_press (start_press tap_only_heap 1 100 100 (Some 50) 1) 100.001)
        [100.015, 100.030]) = 1 \<and>
   trigger_count
     (on_burst_timer (end_press (start_press tap_only_heap 1 100 100 (Some 50) 1) 100.001)
        100.015) = 1"
proof -
  define H2 where "H2 = end_press (start_press tap_only_heap 1 100 100 (Some 50) 1) 100.001"
  have idle: "\<not> is_pressed (tap_only_heap 1)"
    by (simp add: example_heaps)
  note th = release_cancels_burst [of tap_only_heap 1 H2 100 100 "Some 50" "100.001", OF idle H2_def]
  have t: "trigger_count (start_press tap_only_heap 1 100 100 (Some 50) 1) = 1"
    "trigger_count H2 = 1" "\<not> is_pressed H2" "burst_timer H2 = None"
    using th by blast+
  have e1: "burst_timer_timeouts H2 [100.015, 100.030] = H2"
    using th by blast
  have "trigger_count (on_burst_timer H2 100.015) = trigger_count H2"
    using th t(3) by blast
  then have e2: "trigger_count (on_burst_timer H2 100.015) = 1"
    using t(2) by simp
  show ?thesis
    unfolding H2_def [symmetric] e1 using idle t e2 by simp
qed

subsection \<open>The safety check\<close>

lemma safety_trigger_count:
  "trigger_count (trigger_action_with_safety_check g sb sa) = trigger_count g + 1"
  by (simp add: trigger_action_with_safety_check_def trigger_action_def force_stop_def
      cleanup_state_def Let_def split: option.splits)

lemma safety_unchanged_below:
  "size_unchanged sb sa \<Longrightarrow> unchanged_trigger_count g + 1 < MAX_UNCHANGED_TRIGGERS \<Longrightarrow>
   trigger_action_with_safety_check g sb sa =
     g\<lparr>trigger_count := trigger_count g + 1,
       unchanged_trigger_count := unchanged_trigger_count g + 1\<rparr>"
  by (auto simp: size_unchanged_def trigger_action_with_safety_check_def trigger_action_def
      Let_def split: option.splits)

lemma safety_unchanged_limit:
  "size_unchanged sb sa \<Longrightarrow> MAX_UNCHANGED_TRIGGERS \<le> unchanged_trigger_count g + 1 \<Longrightarrow>
   trigger_action_with_safety_check g sb sa =
     force_stop (g\<lparr>trigger_count := trigger_count g + 1,
                   unchanged_trigger_count := unchanged_trigger_count g + 1\<rparr>)
       ''brush size not changing''"
  by (auto simp: size_unchanged_def trigger_action_with_safety_check_def trigger_action_def
      Let_def split: option.splits)

lemma safety_changed:
  assumes "size_changed sb sa"
  shows "trigger_action_with_safety_check g sb sa =
     g\<lparr>trigger_count := trigger_count g + 1, unchanged_trigger_count := 0,
       last_brush_size := sa\<rparr>"
proof -
  obtain b a where s: "sb = Some b" "sa = Some a" and d: "\<not> \<bar>b - a\<bar> < 0.001"
    using assms unfolding size_changed_def by (cases sb; cases sa) simp_all
  have "(if \<bar>b - a\<bar> < 0.001 then x else y) = y" for x y :: handler
    using d by (rule if_not_P)
  then show ?thesis
    unfolding s trigger_action_with_safety_check_def Let_def option.case trigger_action_def
    by simp
qed

lemma safety_no_reading:
  "sb = None \<or> sa = None \<Longrightarrow>
   trigger_action_with_safety_check g sb sa = trigger_action g"
  by (auto simp: trigger_action_with_safety_check_def Let_def split: option.splits)

lemma safety_run_below:
  "list_all (\<lambda>r. size_unchanged (fst r) (snd r)) rs \<Longrightarrow>
   unchanged_trigger_count g + int (length rs) < MAX_UNCHANGED_TRIGGERS \<Longrightarrow>
   safety_checked_triggers g rs =
     g\<lparr>trigger_count := trigger_count g + int (length rs),
       unchanged_trigger_count := unchanged_trigger_count g + int (length rs)\<rparr>"
proof (induction rs arbitrary: g)
  case Nil
  then show ?case by simp
next
  case (Cons r rs)
  obtain sb sa where r: "r = (sb, sa)" by (cases r)
  have un: "size_unchanged sb sa" and rest: "list_all (\<lambda>r. size_unchanged (fst r) (snd r)) rs"
    using Cons.prems(1) r by simp_all
  have below: "unchanged_trigger_count g + 1 < MAX_UNCHANGED_TRIGGERS"
    using Cons.prems(2) by simp
  let ?g1 = "g\<lparr>trigger_count := trigger_count g + 1,
       unchanged_trigger_count := unchanged_trigger_count g + 1\<rparr>"
  have "safety_checked_triggers ?g1 rs =
     ?g1\<lparr>trigger_count := trigger_count ?g1 + int (length rs),
       unchanged_trigger_count := unchanged_trigger_count ?g1 + int (length rs)\<rparr>"
    by (rule Cons.IH [OF rest]) (use Cons.prems(2) in simp)
  then show ?case
    by (simp add: r safety_unchanged_below [OF un below] ac_simps)
qed

lemma safety_run_stops:
  assumes "list_all (\<lambda>r. size_unchanged (fst r) (snd r)) rs"
    and "unchanged_trigger_count g + int (length rs) = MAX_UNCHANGED_TRIGGERS"
    and "rs \<noteq> []"
  shows "\<not> is_pressed (safety_checked_triggers g rs)"
    and "timer (safety_checked_triggers g rs) = None"
    and "burst_timer (safety_checked_triggers g rs) = None"
    and "trigger_count (safety_checked_triggers g rs) = trigger_count g + int (length rs)"
proof -
  obtain us r where rs: "rs = us @ [r]" using assms(3) by (metis rev_exhaust)
  obtain sb sa where r: "r = (sb, sa)" by (cases r)
  have app: "safety_checked_triggers g (us @ [(sb, sa)]) =
             trigger_action_with_safety_check (safety_checked_triggers g us) sb sa" for g
    by (induction us arbitrary: g) auto
  have un: "size_unchanged sb sa" and rest: "list_all (\<lambda>r. size_unchanged (fst r) (snd r)) us"
    using assms(1) rs r by simp_all
  have below: "unchanged_trigger_count g + int (length us) < MAX_UNCHANGED_TRIGGERS"
    using assms(2) rs by simp
  let ?g1 = "g\<lparr>trigger_count := trigger_count g + int (length us),
       unchanged_trigger_count := unchanged_trigger_count g + int (length us)\<rparr>"
  have g1: "safety_checked_triggers g us = ?g1"
    by (rule safety_run_below [OF rest below])
  have lim: "MAX_UNCHANGED_TRIGGERS \<le> unchanged_trigger_count ?g1 + 1"
    using assms(2) rs by simp
  have fin: "safety_checked_triggers g rs =
     force_stop (?g1\<lparr>trigger_count := trigger_count ?g1 + 1,
                   unchanged_trigger_count := unchanged_trigger_count ?g1 + 1\<rparr>)
       ''brush size not changing''"
    unfolding rs r app g1 by (rule safety_unchanged_limit [OF un lim])
  show "\<not> is_pressed (safety_checked_triggers g rs)"
    and "timer (safety_checked_triggers g rs) = None"
    and "burst_timer (safety_checked_triggers g rs) = None"
    and "trigger_count (safety_checked_triggers g rs) = trigger_count g + int (length rs)"
    unfolding fin by (simp_all add: force_stop_def cleanup_state_def rs)
qed

lemma on_timer_live:
  assumes p: "is_pressed h" and nomax: "\<not> now - press_start_time h > MAX_PRESS_DURATION"
    and h2: "h2 = (if HOLD_ENABLED h \<and> now - press_start_time h \<ge> HOLD_DETECT_TIME h \<and>
                      current_mode h \<noteq> HOLD \<and> \<not> burst_active h
                   then h\<lparr>last_timer_activity := now, current_mode := HOLD\<rparr>
                   else h\<lparr>last_timer_activity := now\<rparr>)"
  shows "on_timer h now sb sa =
     (if current_mode h2 \<noteq> HOLD then Inr h2
      else (case get_current_interval h2 (now - press_start_time h) of
              Inl e \<Rightarrow> Inl e
            | Inr interval \<Rightarrow>
                if now - last_trigger_time h \<ge> interval
                then Inr ((trigger_action_with_safety_check h2 sb sa)\<lparr>last_trigger_time := now\<rparr>)
                else Inr h2))"
proof -
  define P where "P \<longleftrightarrow> HOLD_ENABLED h \<and> now - press_start_time h \<ge> HOLD_DETECT_TIME h \<and>
                      current_mode h \<noteq> HOLD \<and> \<not> burst_active h"
  have c: "(HOLD_ENABLED (h\<lparr>last_timer_activity := now\<rparr>) \<and>
            now - press_start_time h \<ge> HOLD_DETECT_TIME (h\<lparr>last_timer_activity := now\<rparr>) \<and>
            current_mode (h\<lparr>last_timer_activity := now\<rparr>) \<noteq> HOLD \<and>
            \<not> burst_active (h\<lparr>last_timer_activity := now\<rparr>)) = P"
    by (simp add: P_def)
  have h2': "h2 = (if P then h\<lparr>last_timer_activity := now, current_mode := HOLD\<rparr>
                   else h\<lparr>last_timer_activity := now\<rparr>)"
    unfolding h2 P_def ..
  have "on_timer h now sb sa =
     (let g = (if P then h\<lparr>last_timer_activity := now, current_mode := HOLD\<rparr>
               else h\<lparr>last_timer_activity := now\<rparr>)
      in if current_mode g \<noteq> HOLD then Inr g
      else (case get_current_interval g (now - press_start_time h) of
              Inl e \<Rightarrow> Inl e
            | Inr interval \<Rightarrow>
                if now - last_trigger_time h \<ge> interval
                then Inr ((trigger_action_with_safety_check g sb sa)\<lparr>last_trigger_time := now\<rparr>)
                else Inr g))"
    unfolding on_timer_def Let_def c using p nomax by (cases P) simp_all
  then show ?thesis unfolding h2' Let_def .
qed

lemma on_timer_fires_checked:
  assumes "on_timer h now sb sa = Inr h'" "trigger_count h' \<noteq> trigger_count h"
  shows "\<exists>g. h' = (trigger_action_with_safety_check g sb sa)\<lparr>last_trigger_time := now\<rparr> \<and>
             trigger_count g = trigger_count h \<and>
             unchanged_trigger_count g = unchanged_trigger_count h \<and>
             is_pressed g \<and> current_mode g = HOLD"
proof -
  define h2 where "h2 = (if HOLD_ENABLED h \<and> now - press_start_time h \<ge> HOLD_DETECT_TIME h \<and>
                                  current_mode h \<noteq> HOLD \<and> \<not> burst_active h
                               then h\<lparr>last_timer_activity := now, current_mode := HOLD\<rparr>
                               else h\<lparr>last_timer_activity := now\<rparr>)"
  have frame: "trigger_count h2 = trigger_count h"
    "unchanged_trigger_count h2 = unchanged_trigger_count h" "is_pressed h2 = is_pressed h"
    unfolding h2_def by simp_all
  have p: "is_pressed h"
  proof (rule ccontr)
    assume "\<not> is_pressed h"
    then have "h' = h\<lparr>timer := None\<rparr>" using assms(1) by (simp add: on_timer_def)
    then show False using assms(2) by simp
  qed
  have nomax: "\<not> now - press_start_time h > MAX_PRESS_DURATION"
  proof
    assume "now - press_start_time h > MAX_PRESS_DURATION"
    then have "h' = force_stop h ''max press duration exceeded''"
      using assms(1) p by (simp add: on_timer_def Let_def)
    then show False using assms(2) by (simp add: force_stop_def cleanup_state_def)
  qed
  note ot = on_timer_live [OF p nomax h2_def, of sb sa]
  have "h' = (trigger_action_with_safety_check h2 sb sa)\<lparr>last_trigger_time := now\<rparr> \<and>
        current_mode h2 = HOLD"
    using assms frame(1) unfolding ot
    by (auto split: if_splits sum.splits)
  then show ?thesis using frame p by auto
qed

lemma burst_steps_unchecked:
  "unchanged_trigger_count (on_burst_timer g t) = unchanged_trigger_count g"
  "is_pressed (on_burst_timer g t) = is_pressed g"
  "unchanged_trigger_count (start_burst g c i t) = unchanged_trigger_count g"
  "is_pressed (start_burst g c i t) = is_pressed g"
  by (simp_all add: on_burst_timer_def start_burst_def trigger_action_def finish_burst_def Let_def)

lemma on_timer_max_duration:
  "is_pressed h \<Longrightarrow> MAX_PRESS_DURATION < now - press_start_time h \<Longrightarrow>
   on_timer h now sb sa = Inr (force_stop h ''max press duration exceeded'')"
  by (simp add: on_timer_def Let_def)

text \<open>
  A tap burst of twenty triggers (the largest burst count of the settings panel) on a new
  handler: all twenty fire, the handler is still pressed and its counter of unchanged
  triggers is 0. No burst step reads the brush size, so this is so whatever the host
  reports, also when the size is pinned at its limit.
\<close>

theorem burst_not_safety_checked_counterexample:
  "is_pressed (burst_timer_timeouts (start_press_self burst20_handler 100 100 (Some 1))
      [100.015, 100.030, 100.045, 100.060, 100.075, 100.090, 100.105, 100.120, 100.135, 100.150,
       100.165, 100.180, 100.195, 100.210, 100.225, 100.240, 100.255, 100.270, 100.285]) \<and>
   trigger_count (burst_timer_timeouts (start_press_self burst20_handler 100 100 (Some 1))
      [100.015, 100.030, 100.045, 100.060, 100.075, 100.090, 100.105, 100.120, 100.135, 100.150,
       100.165, 100.180, 100.195, 100.210, 100.225, 100.240, 100.255, 100.270, 100.285]) = 20 \<and>
   unchanged_trigger_count (burst_timer_timeouts (start_press_self burst20_handler 100 100 (Some 1))
      [100.015, 100.030, 100.045, 100.060, 100.075, 100.090, 100.105, 100.120, 100.135, 100.150,
       100.165, 100.180, 100.195, 100.210, 100.225, 100.240, 100.255, 100.270, 100.285]) = 0 \<and>
   MAX_UNCHANGED_TRIGGERS = 15"
  by (simp add: burst20_handler_def example_heaps handler_ops MAX_UNCHANGED_TRIGGERS_def)

text \<open>
  C4 (as the code has it). Every trigger fired from a poll-timer tick goes through the
  safety check: the handler reads the size, fires the action and reads the size again.
  When both readings are there and differ by less than 0.001 the counter of unchanged
  triggers goes up by one, and when it reaches \<open>MAX_UNCHANGED_TRIGGERS\<close> (15) the handler
  force-stops itself (not pressed, both timers stopped); fifteen unchanged triggers in a
  row from a counter of 0 do that, fewer do not. A change of at least 0.001 sets the counter
  to 0 and records the new size. The triggers of a burst (the first step in
  \<^verbatim>\<open>_start_burst\<close> and the steps of the burst timer) make no safety check: they leave
  the counter and the pressed flag as they are.
\<close>

theorem hold_triggers_safety_checked:
  "(on_timer h now sb sa = Inr h' \<and> trigger_count h' \<noteq> trigger_count h \<longrightarrow>
      (\<exists>g. h' = (trigger_action_with_safety_check g sb sa)\<lparr>last_trigger_time := now\<rparr> \<and>
           trigger_count g = trigger_count h \<and>
           unchanged_trigger_count g = unchanged_trigger_count h \<and>
           is_pressed g \<and> current_mode g = HOLD)) \<and>
   trigger_count (trigger_action_with_safety_check g sb sa) = trigger_count g + 1 \<and>
   (size_unchanged sb sa \<and> unchanged_trigger_count g + 1 < MAX_UNCHANGED_TRIGGERS \<longrightarrow>
      unchanged_trigger_count (trigger_action_with_safety_check g sb sa) =
        unchanged_trigger_count g + 1 \<and>
      is_pressed (trigger_action_with_safety_check g sb sa) = is_pressed g) \<and>
   (size_unchanged sb sa \<and> MAX_UNCHANGED_TRIGGERS \<le> unchanged_trigger_count g + 1 \<longrightarrow>
      \<not> is_pressed (trigger_action_with_safety_check g sb sa) \<and>
      timer (trigger_action_with_safety_check g sb sa) = None \<and>
      burst_timer (trigger_action_with_safety_check g sb sa) = None) \<and>
   (size_changed sb sa \<longrightarrow>
      unchanged_trigger_count (trigger_action_with_safety_check g sb sa) = 0 \<and>
      last_brush_size (trigger_action_with_safety_check g sb sa) = sa \<and>
      is_pressed (trigger_action_with_safety_check g sb sa) = is_pressed g) \<and>
   MAX_UNCHANGED_TRIGGERS = 15 \<and>
   (unchanged_trigger_count g = 0 \<and> list_all (\<lambda>r. size_unchanged (fst r) (snd r)) rs \<longrightarrow>
      (length rs < 15 \<longrightarrow>
         is_pressed (safety_checked_triggers g rs) = is_pressed g \<and>
         trigger_count (safety_checked_triggers g rs) = trigger_count g + int (length rs)) \<and>
      (length rs = 15 \<longrightarrow>
         \<not> is_pressed (safety_checked_triggers g rs) \<and>
         timer (safety_checked_triggers g rs) = None \<and>
         burst_timer (safety_checked_triggers g rs) = None \<and>
         trigger_count (safety_checked_triggers g rs) = trigger_count g + 15)) \<and>
   unchanged_trigger_count (on_burst_timer g t) = unchanged_trigger_count g \<and>
   is_pressed (on_burst_timer g t) = is_pressed g \<and>
   unchanged_trigger_count (start_burst g c i t) = unchanged_trigger_count g \<and>
   is_pressed (start_burst g c i t) = is_pressed g"
proof -
  have fires: "on_timer h now sb sa = Inr h' \<and> trigger_count h' \<noteq> trigger_count h \<longrightarrow>
      (\<exists>g. h' = (trigger_action_with_safety_check g sb sa)\<lparr>last_trigger_time := now\<rparr> \<and>
           trigger_count g = trigger_count h \<and>
           unchanged_trigger_count g = unchanged_trigger_count h \<and>
           is_pressed g \<and> current_mode g = HOLD)"
    using on_timer_fires_checked [of h now sb sa h'] by blast
  have below: "size_unchanged sb sa \<and> unchanged_trigger_count g + 1 < MAX_UNCHANGED_TRIGGERS \<longrightarrow>
      unchanged_trigger_count (trigger_action_with_safety_check g sb sa) =
        unchanged_trigger_count g + 1 \<and>
      is_pressed (trigger_action_with_safety_check g sb sa) = is_pressed g"
    by (auto simp: safety_unchanged_below)
  have limit: "size_unchanged sb sa \<and> MAX_UNCHANGED_TRIGGERS \<le> unchanged_trigger_count g + 1 \<longrightarrow>
      \<not> is_pressed (trigger_action_with_safety_check g sb sa) \<and>
      timer (trigger_action_with_safety_check g sb sa) = None \<and>
      burst_timer (trigger_action_with_safety_check g sb sa) = None"
    by (auto simp: safety_unchanged_limit force_stop_def cleanup_state_def)
  have changed: "size_changed sb sa \<longrightarrow>
      unchanged_trigger_count (trigger_action_with_safety_check g sb sa) = 0 \<and>
      last_brush_size (trigger_action_with_safety_check g sb sa) = sa \<and>
      is_pressed (trigger_action_with_safety_check g sb sa) = is_pressed g"
    by (auto simp: safety_changed)
  have run: "(length rs < 15 \<longrightarrow>
         is_pressed (safety_checked_triggers g rs) = is_pressed g \<and>
         trigger_count (safety_checked_triggers g rs) = trigger_count g + int (length rs)) \<and>
      (length rs = 15 \<longrightarrow>
         \<not> is_pressed (safety_checked_triggers g rs) \<and>
         timer (safety_checked_triggers g rs) = None \<and>
         burst_timer (safety_checked_triggers g rs) = None \<and>
         trigger_count (safety_checked_triggers g rs) = trigger_count g + 15)"
    if z: "unchanged_trigger_count g = 0"
      and un: "list_all (\<lambda>r. size_unchanged (fst r) (snd r)) rs"
  proof (intro conjI impI)
    assume l: "length rs < 15"
    have b: "unchanged_trigger_count g + int (length rs) < MAX_UNCHANGED_TRIGGERS"
      using z l by (simp add: MAX_UNCHANGED_TRIGGERS_def)
    show "is_pressed (safety_checked_triggers g rs) = is_pressed g"
      and "trigger_count (safety_checked_triggers g rs) = trigger_count g + int (length rs)"
      unfolding safety_run_below [OF un b] by simp_all
  next
    assume l: "length rs = 15"
    have b: "unchanged_trigger_count g + int (length rs) = MAX_UNCHANGED_TRIGGERS"
      using z l by (simp add: MAX_UNCHANGED_TRIGGERS_def)
    have ne: "rs \<noteq> []" using l by auto
    note st = safety_run_stops [OF un b ne]
    show "\<not> is_pressed (safety_checked_triggers g rs)"
      and "timer (safety_checked_triggers g rs) = None"
      and "burst_timer (safety_checked_triggers g rs) = None"
      and "trigger_count (safety_checked_triggers g rs) = trigger_count g + 15"
      using st l by simp_all
  qed
  show ?thesis
    using fires below limit changed run safety_trigger_count [of g sb sa]
      burst_steps_unchecked(1,2) [of g t] burst_steps_unchecked(3,4) [of g c i t]
    by (simp add: MAX_UNCHANGED_TRIGGERS_def)
qed

text \<open>
  The held key at the tick of 100.2 with a size that changes from 50 to 51; the same key
  with fourteen unchanged triggers counted, at a trigger that leaves the size at 1; and
  fifteen such triggers in a row from a counter of 0.
\<close>

theorem hold_triggers_safety_checked_witness:
  "(\<exists>h'. on_timer held_handler 100.2 (Some 50) (Some 51) = Inr h' \<and>
         trigger_count h' \<noteq> trigger_count held_handler \<and>
         (\<exists>g. h' = (trigger_action_with_safety_check g (Some 50) (Some 51))
                      \<lparr>last_trigger_time := 100.2\<rparr> \<and>
               unchanged_trigger_count g = unchanged_trigger_count held_handler)) \<and>
   size_unchanged (Some 1) (Some 1) \<and> size_changed (Some 50) (Some 51) \<and>
   unchanged_trigger_count held_handler = 0 \<and> unchanged_trigger_count pinned_handler = 14 \<and>
   is_pressed pinned_handler \<and>
   unchanged_trigger_count (trigger_action_with_safety_check held_handler (Some 1) (Some 1)) = 1 \<and>
   is_pressed (trigger_action_with_safety_check pinned_handler (Some 1) (Some 1)) = False \<and>
   unchanged_trigger_count (trigger_action_with_safety_check pinned_handler (Some 50) (Some 51)) = 0 \<and>
   is_pressed (safety_checked_triggers held_handler (replicate 15 (Some 1, Some 1))) = False \<and>
   is_pressed (safety_checked_triggers held_handler (replicate 14 (Some 1, Some 1)))"
proof -
  have f: "unchanged_trigger_count held_handler = 0" "unchanged_trigger_count pinned_handler = 14"
    "is_pressed pinned_handler" "is_pressed held_handler"
    by (simp_all add: pinned_handler_def held_handler_def example_heaps)
  have s: "size_unchanged (Some 1) (Some 1)" "size_changed (Some 50) (Some 51)"
    by (simp_all add: size_unchanged_def size_changed_def)
  have tick: "\<exists>h'. on_timer held_handler 100.2 (Some 50) (Some 51) = Inr h' \<and>
         trigger_count h' \<noteq> trigger_count held_handler"
    by (simp add: held_handler_def example_heaps on_timer_def MAX_PRESS_DURATION_def
        get_current_interval_def trigger_action_with_safety_check_def trigger_action_def Let_def)
  then obtain h' where h': "on_timer held_handler 100.2 (Some 50) (Some 51) = Inr h'"
    "trigger_count h' \<noteq> trigger_count held_handler"
    by blast
  have all: "list_all (\<lambda>r. size_unchanged (fst r) (snd r)) (replicate n (Some 1, Some 1))" for n
    using s(1) by (simp add: list_all_iff)
  note a = hold_triggers_safety_checked
      [of held_handler "100.2" "Some 50" "Some 51" h' held_handler
        "replicate 15 (Some 1, Some 1)" 0 0 0]
  note b = hold_triggers_safety_checked
      [of held_handler "100.2" "Some 1" "Some 1" h' pinned_handler
        "replicate 14 (Some 1, Some 1)" 0 0 0]
  note c = hold_triggers_safety_checked
      [of held_handler "100.2" "Some 50" "Some 51" h' pinned_handler
        "replicate 14 (Some 1, Some 1)" 0 0 0]
  note d = hold_triggers_safety_checked
      [of held_handler "100.2" "Some 1" "Some 1" h' held_handler
        "replicate 14 (Some 1, Some 1)" 0 0 0]
  have w1: "\<exists>g. h' = (trigger_action_with_safety_check g (Some 50) (Some 51))
                      \<lparr>last_trigger_time := 100.2\<rparr> \<and>
               unchanged_trigger_count g = unchanged_trigger_count held_handler"
    using a h' by blast
  have w2: "unchanged_trigger_count (trigger_action_with_safety_check held_handler (Some 1) (Some 1)) = 1"
    using d s(1) f(1) by simp
  have w3: "\<not> is_pressed (trigger_action_with_safety_check pinned_handler (Some 1) (Some 1))"
    using b s(1) f(2) by simp
  have w4: "unchanged_trigger_count
              (trigger_action_with_safety_check pinned_handler (Some 50) (Some 51)) = 0"
    using c s(2) by blast
  have w5: "\<not> is_pressed (safety_checked_triggers held_handler (replicate 15 (Some 1, Some 1)))"
    using a f(1) all [of 15] by simp
  have w6: "is_pressed (safety_checked_triggers held_handler (replicate 14 (Some 1, Some 1)))"
    using d f(1,4) all [of 14] by simp
  show ?thesis
    using h' w1 w2 w3 w4 w5 w6 s f by blast
qed

subsection \<open>The hold interval\<close>

lemma get_current_interval_hold:
  "current_mode g = HOLD \<Longrightarrow> HOLD_TAU g \<noteq> 0 \<Longrightarrow>
   get_current_interval g e =
     Inr (max (HOLD_MIN_INTERVAL g)
            (HOLD_BASE_INTERVAL g * exp (- HOLD_EXP_K g * max 0 (e - HOLD_DETECT_TIME g) / HOLD_TAU g)))"
  by (simp add: get_current_interval_def Let_def)

text \<open>
  C5. A poll-timer tick on a pressed handler that is in hold mode (or is promoted to it by
  this tick), within the maximum press duration and with a time constant other than zero:
  the target interval is
  \<open>max HOLD_MIN_INTERVAL (HOLD_BASE_INTERVAL * exp (- HOLD_EXP_K * max 0 (t - HOLD_DETECT_TIME) / HOLD_TAU))\<close>
  where \<open>t\<close> is the time since the start of the press, and the tick fires one trigger
  and sets the time of the last trigger to the current time exactly when the time since the
  last trigger is at least that interval; otherwise it fires nothing and leaves that time.
  (A tick beyond the maximum press duration computes no interval: it force-stops the
  handler, see \<open>on_timer_max_duration\<close>.)
\<close>

theorem hold_interval_and_trigger:
  "is_pressed h \<Longrightarrow> now - press_start_time h \<le> MAX_PRESS_DURATION \<Longrightarrow> HOLD_TAU h \<noteq> 0 \<Longrightarrow>
   current_mode h = HOLD \<or>
     (HOLD_ENABLED h \<and> HOLD_DETECT_TIME h \<le> now - press_start_time h \<and> \<not> burst_active h) \<Longrightarrow>
   I = max (HOLD_MIN_INTERVAL h)
         (HOLD_BASE_INTERVAL h *
          exp (- HOLD_EXP_K h * max 0 (now - press_start_time h - HOLD_DETECT_TIME h) / HOLD_TAU h)) \<Longrightarrow>
   get_current_interval (h\<lparr>current_mode := HOLD\<rparr>) (now - press_start_time h) = Inr I \<and>
   (\<exists>h'. on_timer h now sb sa = Inr h' \<and> current_mode h' = HOLD \<and>
      (I \<le> now - last_trigger_time h \<longrightarrow>
         trigger_count h' = trigger_count h + 1 \<and> last_trigger_time h' = now) \<and>
      (now - last_trigger_time h < I \<longrightarrow>
         trigger_count h' = trigger_count h \<and> last_trigger_time h' = last_trigger_time h))"
proof -
  assume p: "is_pressed h" and le: "now - press_start_time h \<le> MAX_PRESS_DURATION"
    and tau: "HOLD_TAU h \<noteq> 0"
    and mode: "current_mode h = HOLD \<or>
     (HOLD_ENABLED h \<and> HOLD_DETECT_TIME h \<le> now - press_start_time h \<and> \<not> burst_active h)"
    and I: "I = max (HOLD_MIN_INTERVAL h)
         (HOLD_BASE_INTERVAL h *
          exp (- HOLD_EXP_K h * max 0 (now - press_start_time h - HOLD_DETECT_TIME h) / HOLD_TAU h))"
  define h2 where "h2 = (if HOLD_ENABLED h \<and> now - press_start_time h \<ge> HOLD_DETECT_TIME h \<and>
                                  current_mode h \<noteq> HOLD \<and> \<not> burst_active h
                               then h\<lparr>last_timer_activity := now, current_mode := HOLD\<rparr>
                               else h\<lparr>last_timer_activity := now\<rparr>)"
  have nomax: "\<not> now - press_start_time h > MAX_PRESS_DURATION" using le by simp
  note ot = on_timer_live [OF p nomax h2_def, of sb sa]
  have m2: "current_mode h2 = HOLD" using mode unfolding h2_def by auto
  have f2: "HOLD_TAU h2 = HOLD_TAU h" "HOLD_MIN_INTERVAL h2 = HOLD_MIN_INTERVAL h"
    "HOLD_BASE_INTERVAL h2 = HOLD_BASE_INTERVAL h" "HOLD_EXP_K h2 = HOLD_EXP_K h"
    "HOLD_DETECT_TIME h2 = HOLD_DETECT_TIME h" "trigger_count h2 = trigger_count h"
    "last_trigger_time h2 = last_trigger_time h"
    unfolding h2_def by simp_all
  have gi: "get_current_interval h2 (now - press_start_time h) = Inr I"
    using get_current_interval_hold [of h2 "now - press_start_time h"] m2 tau
    unfolding f2 I by simp
  have first: "get_current_interval (h\<lparr>current_mode := HOLD\<rparr>) (now - press_start_time h) = Inr I"
    using get_current_interval_hold [of "h\<lparr>current_mode := HOLD\<rparr>" "now - press_start_time h"] tau
    unfolding I by simp
  have ot': "on_timer h now sb sa =
      (if now - last_trigger_time h \<ge> I
       then Inr ((trigger_action_with_safety_check h2 sb sa)\<lparr>last_trigger_time := now\<rparr>)
       else Inr h2)"
    unfolding ot gi using m2 by simp
  have mode_safe: "current_mode (trigger_action_with_safety_check h2 sb sa) = HOLD"
    using m2
    by (simp add: trigger_action_with_safety_check_def trigger_action_def force_stop_def
        cleanup_state_def Let_def split: option.splits)
  show ?thesis
  proof (cases "I \<le> now - last_trigger_time h")
    case True
    then show ?thesis
      using first ot' mode_safe f2 by (simp add: safety_trigger_count)
  next
    case False
    then show ?thesis
      using first ot' m2 f2 by simp
  qed
qed

text \<open>
  The held key, pressed at 100 with the default settings (hold detection 0.2, base
  interval 0.1): at 100.2 the interval is 0.1 and the tick fires; at 100.05 it does not;
  at 100.5 the interval has decayed and the tick fires.
\<close>

theorem hold_interval_and_trigger_witness:
  "is_pressed held_handler \<and> 100.5 - press_start_time held_handler \<le> MAX_PRESS_DURATION \<and>
   HOLD_TAU held_handler \<noteq> 0 \<and> current_mode held_handler = HOLD \<and>
   get_current_interval (held_handler\<lparr>current_mode := HOLD\<rparr>)
     (100.2 - press_start_time held_handler) = Inr 0.1 \<and>
   (\<exists>h'. on_timer held_handler 100.2 (Some 50) (Some 51) = Inr h' \<and>
         trigger_count h' = trigger_count held_handler + 1 \<and> last_trigger_time h' = 100.2) \<and>
   (\<exists>h'. on_timer held_handler 100.05 (Some 50) (Some 51) = Inr h' \<and>
         trigger_count h' = trigger_count held_handler \<and>
         last_trigger_time h' = last_trigger_time held_handler) \<and>
   (\<exists>h'. on_timer held_handler 100.5 (Some 50) (Some 51) = Inr h' \<and>
         trigger_count h' = trigger_count held_handler + 1 \<and> last_trigger_time h' = 100.5)"
proof -
  have f: "is_pressed held_handler" "HOLD_TAU held_handler = 0.15"
    "current_mode held_handler = HOLD" "press_start_time held_handler = 100"
    "last_trigger_time held_handler = 100" "HOLD_MIN_INTERVAL held_handler = 0.008"
    "HOLD_BASE_INTERVAL held_handler = 0.1" "HOLD_EXP_K held_handler = 8"
    "HOLD_DETECT_TIME held_handler = 0.2"
    by (simp_all add: held_handler_def example_heaps)
  have d: "100.5 - press_start_time held_handler \<le> MAX_PRESS_DURATION"
    "100.2 - press_start_time held_handler \<le> MAX_PRESS_DURATION"
    "100.05 - press_start_time held_handler \<le> MAX_PRESS_DURATION"
    by (simp_all add: f MAX_PRESS_DURATION_def)
  have tau: "HOLD_TAU held_handler \<noteq> 0" by (simp add: f)
  have m: "current_mode held_handler = HOLD \<or>
     (HOLD_ENABLED held_handler \<and> HOLD_DETECT_TIME held_handler \<le> now - press_start_time held_handler \<and>
      \<not> burst_active held_handler)" for now
    using f(3) by simp
  note a = hold_interval_and_trigger [OF f(1) d(2) tau m refl, of "Some 50" "Some 51"]
  note b = hold_interval_and_trigger [OF f(1) d(3) tau m refl, of "Some 50" "Some 51"]
  note c = hold_interval_and_trigger [OF f(1) d(1) tau m refl, of "Some 50" "Some 51"]
  have ia: "max (HOLD_MIN_INTERVAL held_handler)
         (HOLD_BASE_INTERVAL held_handler *
          exp (- HOLD_EXP_K held_handler *
               max 0 (100.2 - press_start_time held_handler - HOLD_DETECT_TIME held_handler) /
               HOLD_TAU held_handler)) = 0.1"
    by (simp add: f)
  have ib: "max (HOLD_MIN_INTERVAL held_handler)
         (HOLD_BASE_INTERVAL held_handler *
          exp (- HOLD_EXP_K held_handler *
               max 0 (100.05 - press_start_time held_handler - HOLD_DETECT_TIME held_handler) /
               HOLD_TAU held_handler)) = 0.1"
    by (simp add: f)
  have ic: "max (HOLD_MIN_INTERVAL held_handler)
         (HOLD_BASE_INTERVAL held_handler *
          exp (- HOLD_EXP_K held_handler *
               max 0 (100.5 - press_start_time held_handler - HOLD_DETECT_TIME held_handler) /
               HOLD_TAU held_handler)) \<le> 100.5 - last_trigger_time held_handler"
  proof -
    have "exp (- HOLD_EXP_K held_handler *
               max 0 (100.5 - press_start_time held_handler - HOLD_DETECT_TIME held_handler) /
               HOLD_TAU held_handler) \<le> 1"
      by (simp add: f)
    then have "HOLD_BASE_INTERVAL held_handler *
          exp (- HOLD_EXP_K held_handler *
               max 0 (100.5 - press_start_time held_handler - HOLD_DETECT_TIME held_handler) /
               HOLD_TAU held_handler) \<le> 0.1 * 1"
      unfolding f(7) by (rule mult_left_mono) simp
    then show ?thesis by (simp add: f(5,6))
  qed
  have ca: "(0.1::real) \<le> 100.2 - last_trigger_time held_handler"
    and cb: "100.05 - last_trigger_time held_handler < (0.1::real)"
    by (simp_all add: f)
  have wa: "get_current_interval (held_handler\<lparr>current_mode := HOLD\<rparr>)
     (100.2 - press_start_time held_handler) = Inr 0.1"
    using a unfolding ia by blast
  have wb: "\<exists>h'. on_timer held_handler 100.2 (Some 50) (Some 51) = Inr h' \<and>
         trigger_count h' = trigger_count held_handler + 1 \<and> last_trigger_time h' = 100.2"
    using a ca unfolding ia by blast
  have wc: "\<exists>h'. on_timer held_handler 100.05 (Some 50) (Some 51) = Inr h' \<and>
         trigger_count h' = trigger_count held_handler \<and>
         last_trigger_time h' = last_trigger_time held_handler"
    using b cb unfolding ib by blast
  have wd: "\<exists>h'. on_timer held_handler 100.5 (Some 50) (Some 51) = Inr h' \<and>
         trigger_count h' = trigger_count held_handler + 1 \<and> last_trigger_time h' = 100.5"
    using c ic by blast
  show ?thesis
    using f(1,3) d(1) tau wa wb wc wd by blast
qed

subsection \<open>Idle handlers have no timer armed\<close>

lemma settled_new_handler: "settled (new_handler name)"
  by (simp add: settled_def new_handler_def)

lemma settled_force_stop: "settled (force_stop h r)"
  by (simp add: settled_def force_stop_def cleanup_state_def)

lemma settled_end_press: "settled h \<Longrightarrow> settled (end_press h now)"
  by (auto simp: settled_def end_press_def cleanup_state_def)

lemma settled_start_press_self: "settled (start_press_self h now now' s)"
  by (simp add: settled_def start_press_self_frame)

lemma settled_burst_timer_timeout: "settled h \<Longrightarrow> settled (burst_timer_timeout h now)"
  by (auto simp: settled_def burst_timer_timeout_def on_burst_timer_def finish_burst_def
      trigger_action_def Let_def split: option.splits)

lemma settled_safety_check:
  "is_pressed h \<Longrightarrow> settled (trigger_action_with_safety_check h sb sa)"
  by (simp add: settled_def trigger_action_with_safety_check_def trigger_action_def
      force_stop_def cleanup_state_def Let_def split: option.splits)

lemma settled_on_timer:
  assumes "settled h" "on_timer h now sb sa = Inr h'"
  shows "settled h'"
proof (cases "is_pressed h")
  case False
  then show ?thesis
    using assms by (auto simp: on_timer_def settled_def)
next
  case True
  show ?thesis
  proof (cases "now - press_start_time h > MAX_PRESS_DURATION")
    case True
    then show ?thesis
      using assms \<open>is_pressed h\<close> by (auto simp: on_timer_def Let_def settled_force_stop)
  next
    case False
    define h2 where "h2 = (if HOLD_ENABLED h \<and> now - press_start_time h \<ge> HOLD_DETECT_TIME h \<and>
                              current_mode h \<noteq> HOLD \<and> \<not> burst_active h
                           then h\<lparr>last_timer_activity := now, current_mode := HOLD\<rparr>
                           else h\<lparr>last_timer_activity := now\<rparr>)"
    have p2: "is_pressed h2" using \<open>is_pressed h\<close> unfolding h2_def by simp
    have s2: "settled h2" using p2 by (simp add: settled_def)
    have "settled ((trigger_action_with_safety_check h2 sb sa)\<lparr>last_trigger_time := now\<rparr>)"
      using settled_safety_check [OF p2, of sb sa] by (simp add: settled_def)
    then show ?thesis
      using assms(2) s2 unfolding on_timer_live [OF \<open>is_pressed h\<close> False h2_def]
      by (auto split: if_splits sum.splits)
  qed
qed

lemma settled_timer_timeout:
  "settled h \<Longrightarrow> timer_timeout h now sb sa = Inr h' \<Longrightarrow> settled h'"
  by (auto simp: timer_timeout_def settled_on_timer split: option.splits)

lemma settled_check_and_fix: "settled h \<Longrightarrow> settled (snd (check_and_fix_stale_state h now))"
  by (simp add: check_and_fix_stale_state_def settled_force_stop)

lemma settled_start_press:
  assumes "\<forall>c. settled (hp c)"
  shows "settled (start_press hp a now now' s c)"
  using assms
  by (auto simp: start_press_def Let_def settled_start_press_self settled_force_stop
      split: option.splits)

lemma settled_step:
  assumes "\<forall>c. settled (hp c)" "step hp ev = Inr hp'"
  shows "settled (hp' c)"
proof (cases ev)
  case (StartPress a now now' s)
  then show ?thesis using assms settled_start_press [OF assms(1)] by auto
next
  case (EndPress a now)
  then show ?thesis using assms by (auto simp: settled_end_press)
next
  case (ForceStop a r)
  then show ?thesis using assms by (auto simp: settled_force_stop)
next
  case (BurstTimeout a now)
  then show ?thesis using assms by (auto simp: settled_burst_timer_timeout)
next
  case (TimerTimeout a now sb sa)
  show ?thesis
  proof (cases "timer_timeout (hp a) now sb sa")
    case (Inl e)
    then show ?thesis using assms TimerTimeout by simp
  next
    case (Inr h1)
    have "settled (hp a)" using assms(1) by blast
    then have "settled h1" using Inr by (rule settled_timer_timeout)
    then show ?thesis using assms TimerTimeout Inr by auto
  qed
next
  case (CheckStale a now)
  then show ?thesis using assms by (auto simp: settled_check_and_fix)
qed

text \<open>
  In every state reached by calls and callbacks from handlers that are settled, as new
  handlers are, a handler that is not pressed has neither the poll timer nor the burst
  timer armed.
\<close>

lemma idle_timers_disarmed:
  "\<forall>c. settled (hp c) \<Longrightarrow> run hp evs = Inr hp' \<Longrightarrow> \<not> is_pressed (hp' a) \<Longrightarrow>
   timer (hp' a) = None \<and> burst_timer (hp' a) = None"
proof (induction evs arbitrary: hp)
  case Nil
  then show ?case by (auto simp: settled_def)
next
  case (Cons ev evs)
  from Cons.prems(2) obtain hp1 where s: "step hp ev = Inr hp1" and r: "run hp1 evs = Inr hp'"
    by (auto split: sum.splits)
  have "\<forall>c. settled (hp1 c)"
    using settled_step [OF Cons.prems(1) s] by blast
  from Cons.IH [OF this r Cons.prems(3)] show ?case .
qed

end
